theory Spec2Isabelle
  imports Complex_Main "HOL-Library.Word"
begin

section \<open>Binary event decoder (src/src/event-processor.ts)\<close>

text \<open>
  A buffer is a list of bytes. JavaScript numbers that hold unsigned integers read from
  the buffer (counts, offsets, indices, seconds) are natural numbers: they stay far below
  \<open>2^53\<close>, so the arithmetic on them is exact. The exceptions a \<open>DataView\<close> raises are
  values of the type \<open>error\<close>.
\<close>

type_synonym byte = "8 word"

datatype error = RangeError | TypeError | InvalidInput

definition bindE :: "error + 'a \<Rightarrow> ('a \<Rightarrow> error + 'b) \<Rightarrow> error + 'b" where
  "bindE r f = (case r of Inl e \<Rightarrow> Inl e | Inr v \<Rightarrow> f v)"

text \<open>
  \<open>ProcessedEvent\<close> of the interfaces file. The type of numbers \<open>'f\<close> and the type of
  decoded text \<open>'s\<close> are parameters. \<open>wallet\<close> is \<open>None\<close> where JavaScript has
  \<open>undefined\<close> (an array read outside the array).
\<close>

record ('s, 'f) ProcessedEvent =
  wallet :: "'s option"
  amount :: 'f
  priceUsd :: 'f
  volume :: 'f
  type :: string
  time :: 'f

text \<open>Little-endian value of a list of bytes.\<close>

definition le_value :: "byte list \<Rightarrow> nat" where
  "le_value bs = foldr (\<lambda>b acc. unat b + 256 * acc) bs 0"

text \<open>
  \<open>view.getUint8(off)\<close>, \<open>view.getUint32(off, true)\<close> and \<open>view.getFloat32(off, true)\<close>:
  a read that does not fit inside the view raises \<open>RangeError\<close>. The value of a binary32
  bit pattern as a JavaScript number is the parameter \<open>f32\<close>.
\<close>

definition getUint8 :: "byte list \<Rightarrow> nat \<Rightarrow> error + nat" where
  "getUint8 data off = (if off + 1 \<le> length data then Inr (unat (data ! off)) else Inl RangeError)"

definition getUint32 :: "byte list \<Rightarrow> nat \<Rightarrow> error + nat" where
  "getUint32 data off =
     (if off + 4 \<le> length data then Inr (le_value (take 4 (drop off data))) else Inl RangeError)"

definition getFloat32 :: "(32 word \<Rightarrow> 'f) \<Rightarrow> byte list \<Rightarrow> nat \<Rightarrow> error + 'f" where
  "getFloat32 f32 data off =
     (if off + 4 \<le> length data then Inr (f32 (word_of_nat (le_value (take 4 (drop off data)))))
      else Inl RangeError)"

text \<open>\<open>data.slice(a, b)\<close> on a \<open>Uint8Array\<close> clamps to the array and never raises.\<close>

definition slice :: "byte list \<Rightarrow> nat \<Rightarrow> nat \<Rightarrow> byte list" where
  "slice data a b = take (b - a) (drop a data)"

text \<open>\<open>wallets[walletIndex]\<close>: \<open>undefined\<close> outside the array.\<close>

definition array_get :: "'a list \<Rightarrow> nat \<Rightarrow> 'a option" where
  "array_get xs i = (if i < length xs then Some (xs ! i) else None)"

text \<open>
  The first loop of \<open>decodeBinaryEvents\<close>; the numeral argument counts the iterations
  that remain (\<open>walletCount - i\<close>). \<open>dec\<close> is \<open>new TextDecoder().decode\<close>.
\<close>

fun readWallets ::
  "(byte list \<Rightarrow> 's) \<Rightarrow> byte list \<Rightarrow> nat \<Rightarrow> nat \<Rightarrow> 's list \<Rightarrow> error + ('s list \<times> nat)" where
  "readWallets dec data 0 offset wallets = Inr (wallets, offset)"
| "readWallets dec data (Suc k) offset wallets =
     bindE (getUint8 data offset) (\<lambda>len.
       readWallets dec data k (offset + 1 + len)
         (wallets @ [dec (slice data (offset + 1) (offset + 1 + len))]))"

text \<open>The second loop; \<open>num\<close> injects an exact integer into the numbers.\<close>

fun readTrades ::
  "(32 word \<Rightarrow> 'f) \<Rightarrow> (nat \<Rightarrow> 'f) \<Rightarrow> byte list \<Rightarrow> 's list \<Rightarrow> nat \<Rightarrow> nat \<Rightarrow>
   ('s, 'f) ProcessedEvent list \<Rightarrow> error + (('s, 'f) ProcessedEvent list \<times> nat)" where
  "readTrades f32 num data wallets 0 offset events = Inr (events, offset)"
| "readTrades f32 num data wallets (Suc k) offset events =
     bindE (getUint32 data offset) (\<lambda>walletIndex.
     bindE (getFloat32 f32 data (offset + 4)) (\<lambda>amount'.
     bindE (getFloat32 f32 data (offset + 8)) (\<lambda>priceUsd'.
     bindE (getFloat32 f32 data (offset + 12)) (\<lambda>volume'.
     bindE (getUint8 data (offset + 16)) (\<lambda>typeCode.
     bindE (getUint32 data (offset + 17)) (\<lambda>timeInSeconds.
       readTrades f32 num data wallets k (offset + 21)
         (events @ [\<lparr>wallet = array_get wallets walletIndex,
                     amount = amount',
                     priceUsd = priceUsd',
                     volume = volume',
                     type = (if typeCode = 0 then ''buy'' else ''sell''),
                     time = num (timeInSeconds * 1000)\<rparr>])))))))"

text \<open>
  The body of \<open>decodeBinaryEvents\<close> with the final offset kept beside the events, and
  the function itself, which returns the events only.
\<close>

definition decodeLoops ::
  "(byte list \<Rightarrow> 's) \<Rightarrow> (32 word \<Rightarrow> 'f) \<Rightarrow> (nat \<Rightarrow> 'f) \<Rightarrow> byte list \<Rightarrow>
   error + (('s, 'f) ProcessedEvent list \<times> nat)" where
  "decodeLoops dec f32 num data =
     bindE (getUint32 data 0) (\<lambda>walletCount.
     bindE (readWallets dec data walletCount 4 []) (\<lambda>(wallets, offset).
     bindE (getUint32 data offset) (\<lambda>tradeCount.
       readTrades f32 num data wallets tradeCount (offset + 4) [])))"

definition decodeBinaryEvents ::
  "(byte list \<Rightarrow> 's) \<Rightarrow> (32 word \<Rightarrow> 'f) \<Rightarrow> (nat \<Rightarrow> 'f) \<Rightarrow> byte list \<Rightarrow>
   error + ('s, 'f) ProcessedEvent list" where
  "decodeBinaryEvents dec f32 num data = map_sum id fst (decodeLoops dec f32 num data)"

subsection \<open>The wire layout in the words of the specification\<close>

record trade =
  walletIndex :: "32 word"
  amountBits :: "32 word"
  priceUsdBits :: "32 word"
  volumeBits :: "32 word"
  typeCode :: byte
  timeSeconds :: "32 word"

definition u32le :: "nat \<Rightarrow> byte list" where
  "u32le n = [of_nat n, of_nat (n div 256), of_nat (n div 65536), of_nat (n div 16777216)]"

definition wire_wallet :: "byte list \<Rightarrow> byte list" where
  "wire_wallet w = of_nat (length w) # w"

definition wire_trade :: "trade \<Rightarrow> byte list" where
  "wire_trade t =
     u32le (unat (walletIndex t)) @ u32le (unat (amountBits t)) @ u32le (unat (priceUsdBits t)) @
     u32le (unat (volumeBits t)) @ [typeCode t] @ u32le (unat (timeSeconds t))"

definition wire_layout :: "byte list list \<Rightarrow> trade list \<Rightarrow> byte list" where
  "wire_layout ws ts =
     u32le (length ws) @ concat (map wire_wallet ws) @ u32le (length ts) @ concat (map wire_trade ts)"

text \<open>The event the specification expects for one trade record.\<close>

definition event_of ::
  "(byte list \<Rightarrow> 's) \<Rightarrow> (32 word \<Rightarrow> 'f) \<Rightarrow> (nat \<Rightarrow> 'f) \<Rightarrow> byte list list \<Rightarrow> trade \<Rightarrow>
   ('s, 'f) ProcessedEvent" where
  "event_of dec f32 num ws t =
     \<lparr>wallet = Some (dec (ws ! unat (walletIndex t))),
      amount = f32 (amountBits t),
      priceUsd = f32 (priceUsdBits t),
      volume = f32 (volumeBits t),
      type = (if typeCode t = 0 then ''buy'' else ''sell''),
      time = num (unat (timeSeconds t) * 1000)\<rparr>"

text \<open>What the second loop makes of one trade record, given the decoded wallet table.\<close>

definition decoded_event ::
  "(32 word \<Rightarrow> 'f) \<Rightarrow> (nat \<Rightarrow> 'f) \<Rightarrow> 's list \<Rightarrow> trade \<Rightarrow> ('s, 'f) ProcessedEvent" where
  "decoded_event f32 num wallets t =
     \<lparr>wallet = array_get wallets (unat (walletIndex t)),
      amount = f32 (amountBits t),
      priceUsd = f32 (priceUsdBits t),
      volume = f32 (volumeBits t),
      type = (if typeCode t = 0 then ''buy'' else ''sell''),
      time = num (unat (timeSeconds t) * 1000)\<rparr>"

subsection \<open>A concrete platform for closed examples\<close>

text \<open>
  In closed examples numbers stay symbolic: a number read by \<open>getFloat32\<close> is named by its
  bit pattern, an exact integer by its value. Text is 7-bit: on bytes below 128 the UTF-8
  decoder yields the character with the same code.
\<close>

datatype number_name = Float32 "32 word" | Integer nat

definition ascii_text :: "byte list \<Rightarrow> string" where
  "ascii_text bs = map (\<lambda>b. char_of (unat b)) bs"

text \<open>
  The example of the specification: wallets \<open>"A"\<close> and \<open>"BB"\<close>, and the trades
  \<open>(0, 1.0, 2.5, 10.0, buy, 1000)\<close> and \<open>(1, 3.0, 2.6, 5.0, sell, 1001)\<close>, the floats given
  by their binary32 bit patterns.
\<close>

definition example_wallets :: "byte list list" where
  "example_wallets = [ [0x41], [0x42, 0x42]]"

definition example_trades :: "trade list" where
  "example_trades =
     [\<lparr>walletIndex = 0, amountBits = 0x3F800000, priceUsdBits = 0x40200000,
       volumeBits = 0x41200000, typeCode = 0, timeSeconds = 1000\<rparr>,
      \<lparr>walletIndex = 1, amountBits = 0x40400000, priceUsdBits = 0x40266666,
       volumeBits = 0x40A00000, typeCode = 1, timeSeconds = 1001\<rparr>]"

section \<open>Windowed aggregator (src/src/event-processor.ts)\<close>

text \<open>
  JavaScript numbers are kept abstract: the type \<open>'f\<close> with the operations the
  aggregator uses. \<open>js_num\<close> is a numeric literal or an exact integer, \<open>js_gt\<close> is
  \<open>>\<close>, and \<open>js_parseFloat x\<close> is \<open>parseFloat(x.toString())\<close>; the source's
  \<open>parseFloat(x.toString() || '0')\<close> is the same operation, since the text of a number is
  never empty. Counters that the code only increments from 0 are natural numbers.
\<close>

record 'f number_ops =
  js_num :: "nat \<Rightarrow> 'f"
  js_add :: "'f \<Rightarrow> 'f \<Rightarrow> 'f"
  js_sub :: "'f \<Rightarrow> 'f \<Rightarrow> 'f"
  js_mul :: "'f \<Rightarrow> 'f \<Rightarrow> 'f"
  js_div :: "'f \<Rightarrow> 'f \<Rightarrow> 'f"
  js_gt :: "'f \<Rightarrow> 'f \<Rightarrow> bool"
  js_parseFloat :: "'f \<Rightarrow> 'f"

definition timeframes :: "(string \<times> nat) list" where
  "timeframes =
     [(''1m'', 60), (''5m'', 300), (''15m'', 900), (''30m'', 1800), (''1h'', 3600),
      (''2h'', 7200), (''3h'', 10800), (''4h'', 14400), (''5h'', 18000), (''6h'', 21600),
      (''12h'', 43200), (''24h'', 86400)]"

text \<open>\<open>Object.entries(timeframes)\<close>, mapped to key and seconds, sorted by seconds.\<close>

definition timeframeBoundaries :: "(string \<times> nat) list" where
  "timeframeBoundaries = sort_key snd timeframes"

text \<open>
  The accumulator of one timeframe. The three \<open>Map<string, boolean>\<close> objects only
  ever store \<open>true\<close>, so each is the set of its keys and \<open>size\<close> is its cardinality.
\<close>

record ('s, 'f) period =
  buys :: nat
  sells :: nat
  buyVolume :: 'f
  sellVolume :: 'f
  buyers :: "'s option set"
  sellers :: "'s option set"
  totalTransactions :: nat
  totalVolume :: 'f
  totalWallets :: "'s option set"
  initialPrice :: 'f
  lastPrice :: 'f
  hasData :: bool

text \<open>\<open>TimeframeStats\<close> of the interfaces file; \<open>volume\<close> is flattened.\<close>

record 'f TimeframeStats =
  tf_buyers :: nat
  tf_sellers :: nat
  tf_volume_buys :: 'f
  tf_volume_sells :: 'f
  tf_volume_total :: 'f
  tf_transactions :: nat
  tf_buys :: nat
  tf_sells :: nat
  tf_wallets :: nat
  tf_price :: 'f
  tf_priceChangePercentage :: 'f

definition emptyPeriod :: "'f number_ops \<Rightarrow> ('s, 'f) period" where
  "emptyPeriod ops =
     \<lparr>buys = 0, sells = 0, buyVolume = js_num ops 0, sellVolume = js_num ops 0,
      buyers = {}, sellers = {}, totalTransactions = 0, totalVolume = js_num ops 0,
      totalWallets = {}, initialPrice = js_num ops 0, lastPrice = js_num ops 0,
      hasData = False\<rparr>"

text \<open>\<open>stats\<close>: the object that maps a timeframe key to its accumulator.\<close>

type_synonym ('s, 'f) stats = "string \<rightharpoonup> ('s, 'f) period"

definition initStats :: "'f number_ops \<Rightarrow> ('s, 'f) stats" where
  "initStats ops = foldl (\<lambda>stats (key, seconds). stats(key \<mapsto> emptyPeriod ops)) Map.empty timeframeBoundaries"

text \<open>The update of one accumulator by one event (the tail of the inner loop body).\<close>

definition updatePeriod ::
  "'f number_ops \<Rightarrow> ('s, 'f) ProcessedEvent \<Rightarrow> ('s, 'f) period \<Rightarrow> ('s, 'f) period" where
  "updatePeriod ops event period =
     (let p1 = (if \<not> hasData period
                then period\<lparr>initialPrice := js_parseFloat ops (priceUsd event), hasData := True\<rparr>
                else period);
          p2 = p1\<lparr>totalTransactions := totalTransactions p1 + 1,
                   totalVolume := js_add ops (totalVolume p1) (js_parseFloat ops (volume event)),
                   totalWallets := insert (wallet event) (totalWallets p1),
                   lastPrice := js_parseFloat ops (priceUsd event)\<rparr>
      in if type event = ''buy''
         then p2\<lparr>buys := buys p2 + 1,
                  buyVolume := js_add ops (buyVolume p2) (js_parseFloat ops (volume event)),
                  buyers := insert (wallet event) (buyers p2)\<rparr>
         else p2\<lparr>sells := sells p2 + 1,
                  sellVolume := js_add ops (sellVolume p2) (js_parseFloat ops (volume event)),
                  sellers := insert (wallet event) (sellers p2)\<rparr>)"

text \<open>
  The inner loop over \<open>timeframeBoundaries\<close>. A key that \<open>stats\<close> does not have would
  make \<open>period.hasData\<close> raise \<open>TypeError\<close>.
\<close>

fun applyTimeframes ::
  "'f number_ops \<Rightarrow> ('s, 'f) ProcessedEvent \<Rightarrow> 'f \<Rightarrow> (string \<times> nat) list \<Rightarrow> ('s, 'f) stats \<Rightarrow>
   error + ('s, 'f) stats" where
  "applyTimeframes ops event timeDiff [] stats = Inr stats"
| "applyTimeframes ops event timeDiff ((key, seconds) # rest) stats =
     (if js_gt ops timeDiff (js_num ops seconds)
      then applyTimeframes ops event timeDiff rest stats
      else (case stats key of
              None \<Rightarrow> Inl TypeError
            | Some period \<Rightarrow>
                applyTimeframes ops event timeDiff rest
                  (stats(key \<mapsto> updatePeriod ops event period))))"

text \<open>
  The body of the loop over the events. It is the same text in \<open>processEvents\<close> and in
  \<open>processEventsAsync\<close>.
\<close>

definition processEvent ::
  "'f number_ops \<Rightarrow> 'f \<Rightarrow> ('s, 'f) ProcessedEvent \<Rightarrow> ('s, 'f) stats \<Rightarrow> error + ('s, 'f) stats" where
  "processEvent ops currentTimestamp event stats =
     (if type event \<noteq> ''buy'' \<and> type event \<noteq> ''sell'' then Inr stats
      else (let eventTime = js_div ops (time event) (js_num ops 1000);
                timeDiff = js_sub ops currentTimestamp eventTime
            in applyTimeframes ops event timeDiff timeframeBoundaries stats))"

text \<open>
  \<open>for (let i = start; i < end; i++)\<close> over the events. Reading \<open>events[i]\<close> outside
  the array gives \<open>undefined\<close>, whose destructuring raises \<open>TypeError\<close>.
\<close>

function processRange ::
  "'f number_ops \<Rightarrow> 'f \<Rightarrow> ('s, 'f) ProcessedEvent list \<Rightarrow> nat \<Rightarrow> nat \<Rightarrow> ('s, 'f) stats \<Rightarrow>
   error + ('s, 'f) stats" where
  "processRange ops currentTimestamp events i end stats =
     (if i < end
      then (case array_get events i of
              None \<Rightarrow> Inl TypeError
            | Some event \<Rightarrow>
                (case processEvent ops currentTimestamp event stats of
                   Inl e \<Rightarrow> Inl e
                 | Inr stats' \<Rightarrow> processRange ops currentTimestamp events (i + 1) end stats'))
      else Inr stats)"
  by pat_completeness auto
termination
  by (relation "measure (\<lambda>(ops, currentTimestamp, events, i, end, stats). end - i)") auto

declare processRange.simps [simp del]

text \<open>
  The final transformation: the keys of \<open>timeframes\<close> in their order, a timeframe
  without data left out. The result object is the list of its entries in insertion order.
\<close>

definition timeframeStats ::
  "'f number_ops \<Rightarrow> 'f \<Rightarrow> ('s, 'f) period \<Rightarrow> 'f TimeframeStats" where
  "timeframeStats ops currentPrice period =
     (let priceChangePercent =
            (if js_gt ops (initialPrice period) (js_num ops 0)
             then js_mul ops (js_num ops 100)
                    (js_div ops (js_sub ops currentPrice (lastPrice period)) (lastPrice period))
             else js_num ops 0)
      in \<lparr>tf_buyers = card (buyers period),
          tf_sellers = card (sellers period),
          tf_volume_buys = buyVolume period,
          tf_volume_sells = sellVolume period,
          tf_volume_total = totalVolume period,
          tf_transactions = totalTransactions period,
          tf_buys = buys period,
          tf_sells = sells period,
          tf_wallets = card (totalWallets period),
          tf_price = initialPrice period,
          tf_priceChangePercentage = priceChangePercent\<rparr>)"

fun transformStats ::
  "'f number_ops \<Rightarrow> 'f \<Rightarrow> ('s, 'f) stats \<Rightarrow> string list \<Rightarrow> (string \<times> 'f TimeframeStats) list \<Rightarrow>
   error + (string \<times> 'f TimeframeStats) list" where
  "transformStats ops currentPrice stats [] sortedStats = Inr sortedStats"
| "transformStats ops currentPrice stats (timeframe # rest) sortedStats =
     (case stats timeframe of
        None \<Rightarrow> Inl TypeError
      | Some period \<Rightarrow>
          (if \<not> hasData period then transformStats ops currentPrice stats rest sortedStats
           else transformStats ops currentPrice stats rest
                  (sortedStats @ [(timeframe, timeframeStats ops currentPrice period)])))"

text \<open>
  The argument of both entry points: binary data, an array of events, or anything else.
\<close>

datatype ('s, 'f) events_input =
  Binary "byte list" | EventArray "('s, 'f) ProcessedEvent list" | OtherInput

definition inputEvents ::
  "(byte list \<Rightarrow> 's) \<Rightarrow> (32 word \<Rightarrow> 'f) \<Rightarrow> 'f number_ops \<Rightarrow> ('s, 'f) events_input \<Rightarrow>
   error + ('s, 'f) ProcessedEvent list" where
  "inputEvents dec f32 ops binaryData =
     (case binaryData of
        Binary data \<Rightarrow> decodeBinaryEvents dec f32 (js_num ops) data
      | EventArray events \<Rightarrow> Inr events
      | OtherInput \<Rightarrow> Inl InvalidInput)"

text \<open>
  \<open>processEvents\<close>. \<open>now\<close> is the value of \<open>Date.now()\<close> at the call.
\<close>

definition processEvents ::
  "(byte list \<Rightarrow> 's) \<Rightarrow> (32 word \<Rightarrow> 'f) \<Rightarrow> 'f number_ops \<Rightarrow> 'f \<Rightarrow> ('s, 'f) events_input \<Rightarrow>
   error + (string \<times> 'f TimeframeStats) list" where
  "processEvents dec f32 ops now binaryData =
     bindE (inputEvents dec f32 ops binaryData) (\<lambda>events.
       case events of
         [] \<Rightarrow> Inr []
       | first # _ \<Rightarrow>
           (let currentPrice = js_parseFloat ops (priceUsd first);
                currentTimestamp = js_div ops now (js_num ops 1000)
            in bindE (processRange ops currentTimestamp events 0 (length events) (initStats ops))
                 (\<lambda>stats. transformStats ops currentPrice stats (map fst timeframes) [])))"

text \<open>
  \<open>processEventsAsync\<close>. The chunks run one after the other, each in its own timer
  callback; the events array is taken not to change between the callbacks. Beside the
  statistics the model returns the values passed to \<open>onProgress\<close>, when a callback is
  given. An exception inside a timer callback would leave the promise unsettled; like a
  rejection, it is an \<open>Inl\<close> here.
\<close>

definition CHUNK_SIZE :: nat where
  "CHUNK_SIZE = 100000"

function processChunks ::
  "'f number_ops \<Rightarrow> 'f \<Rightarrow> ('s, 'f) ProcessedEvent list \<Rightarrow> bool \<Rightarrow> nat \<Rightarrow> ('s, 'f) stats \<Rightarrow> 'f list \<Rightarrow>
   error + (('s, 'f) stats \<times> 'f list)" where
  "processChunks ops currentTimestamp events onProgress chunk stats progress =
     (if chunk < length events
      then (let end = min (chunk + CHUNK_SIZE) (length events)
            in case processRange ops currentTimestamp events chunk end stats of
                 Inl e \<Rightarrow> Inl e
               | Inr stats' \<Rightarrow>
                   processChunks ops currentTimestamp events onProgress (chunk + CHUNK_SIZE) stats'
                     (if onProgress
                      then progress @
                        [js_mul ops (js_div ops (js_num ops end) (js_num ops (length events)))
                           (js_num ops 100)]
                      else progress))
      else Inr (stats, progress))"
  by pat_completeness auto
termination
  by (relation "measure (\<lambda>(ops, currentTimestamp, events, onProgress, chunk, stats, progress).
        length events - chunk)")
     (auto simp: CHUNK_SIZE_def)

declare processChunks.simps [simp del]

definition processEventsAsync ::
  "(byte list \<Rightarrow> 's) \<Rightarrow> (32 word \<Rightarrow> 'f) \<Rightarrow> 'f number_ops \<Rightarrow> 'f \<Rightarrow> ('s, 'f) events_input \<Rightarrow> bool \<Rightarrow>
   error + ((string \<times> 'f TimeframeStats) list \<times> 'f list)" where
  "processEventsAsync dec f32 ops now binaryData onProgress =
     bindE (inputEvents dec f32 ops binaryData) (\<lambda>events.
       case events of
         [] \<Rightarrow> Inr ([], [])
       | first # _ \<Rightarrow>
           (let currentPrice = js_parseFloat ops (priceUsd first);
                currentTimestamp = js_div ops now (js_num ops 1000)
            in bindE (processChunks ops currentTimestamp events onProgress 0 (initStats ops) [])
                 (\<lambda>(stats, progress).
                    bindE (transformStats ops currentPrice stats (map fst timeframes) [])
                      (\<lambda>sortedStats. Inr (sortedStats, progress)))))"

text \<open>Idealised numbers, for closed examples of the aggregator.\<close>

definition real_ops :: "real number_ops" where
  "real_ops =
     \<lparr>js_num = real, js_add = (+), js_sub = (-), js_mul = (*), js_div = (/),
      js_gt = (\<lambda>a b. b < a), js_parseFloat = (\<lambda>x. x)\<rparr>"

definition example_event :: "real \<Rightarrow> (string, real) ProcessedEvent" where
  "example_event t =
     \<lparr>wallet = Some ''W1'', amount = 1, priceUsd = 2.5, volume = 10, type = ''buy'', time = t\<rparr>"

section \<open>JavaScript numbers in the reconnection delay\<close>

text \<open>
  The delays of \<open>reconnect\<close> are IEEE 754 binary64 values: a finite number, an infinity
  or NaN. A finite double is the real number it denotes; the two zeros are one value. Each
  arithmetic operation returns the exact result rounded to the nearest double, ties to
  even, and an infinity where the rounded result leaves the range.
\<close>

datatype double = Finite real | PosInf | NegInf | NaN

text \<open>The binary exponent of a positive number: \<open>2^e \<le> x < 2^(e+1)\<close>.\<close>

function bexp :: "real \<Rightarrow> int" where
  "bexp x =
     (if x \<le> 0 then 0
      else if 2 \<le> x then bexp (x / 2) + 1
      else if x < 1 then bexp (x * 2) - 1
      else 0)"
  by pat_completeness auto
termination
proof (relation "measure (\<lambda>x. nat \<bar>\<lfloor>log 2 x\<rfloor>\<bar>)")
  show "wf (measure (\<lambda>x. nat \<bar>\<lfloor>log 2 x\<rfloor>\<bar>))" by simp
next
  fix x :: real
  assume "\<not> x \<le> 0" and x: "2 \<le> x"
  then have "1 \<le> log 2 x" by (simp add: le_log_iff)
  then have "1 \<le> \<lfloor>log 2 x\<rfloor>" by linarith
  moreover from x have "\<lfloor>log 2 (x / 2)\<rfloor> = \<lfloor>log 2 x\<rfloor> - 1" by (simp add: log_divide)
  ultimately show "(x / 2, x) \<in> measure (\<lambda>x. nat \<bar>\<lfloor>log 2 x\<rfloor>\<bar>)" by simp
next
  fix x :: real
  assume "\<not> x \<le> 0" and "\<not> 2 \<le> x" and x: "x < 1"
  then have p: "0 < x" by simp
  with x have "log 2 x < 0" by simp
  then have "\<lfloor>log 2 x\<rfloor> \<le> - 1" by linarith
  moreover from p have "\<lfloor>log 2 (x * 2)\<rfloor> = \<lfloor>log 2 x\<rfloor> + 1" by (simp add: log_mult)
  ultimately show "(x * 2, x) \<in> measure (\<lambda>x. nat \<bar>\<lfloor>log 2 x\<rfloor>\<bar>)" by simp
qed

declare bexp.simps [simp del]

text \<open>Rounding to the nearest integer, ties to even.\<close>

definition rne :: "real \<Rightarrow> int" where
  "rne q =
     (let f = \<lfloor>q\<rfloor>; d = q - of_int f
      in if d < 1 / 2 then f
         else if 1 / 2 < d then f + 1
         else if even f then f else f + 1)"

text \<open>
  The exponent of the unit in the last place: 53 significant bits, and below \<open>2^-1022\<close>
  the fixed spacing \<open>2^-1074\<close> of the subnormal numbers. \<open>round64\<close> rounds to that grid;
  \<open>to_double\<close> adds the overflow to an infinity.
\<close>

definition ulp_exp :: "real \<Rightarrow> int" where
  "ulp_exp x = max (bexp \<bar>x\<bar>) (- 1022) - 52"

definition round64 :: "real \<Rightarrow> real" where
  "round64 x = of_int (rne (x / 2 powi ulp_exp x)) * 2 powi ulp_exp x"

definition to_double :: "real \<Rightarrow> double" where
  "to_double x =
     (let y = round64 x
      in if 2 ^ 1024 \<le> y then PosInf else if y \<le> - (2 ^ 1024) then NegInf else Finite y)"

text \<open>\<open>x * y\<close>, \<open>x + y\<close>, \<open>Math.min(x, y)\<close> and \<open>Math.pow(2, n)\<close> for a count \<open>n\<close>.\<close>

fun dmul :: "double \<Rightarrow> double \<Rightarrow> double" where
  "dmul (Finite x) (Finite y) = to_double (x * y)"
| "dmul NaN y = NaN"
| "dmul x NaN = NaN"
| "dmul (Finite x) PosInf = (if x = 0 then NaN else if 0 < x then PosInf else NegInf)"
| "dmul (Finite x) NegInf = (if x = 0 then NaN else if 0 < x then NegInf else PosInf)"
| "dmul PosInf (Finite y) = (if y = 0 then NaN else if 0 < y then PosInf else NegInf)"
| "dmul NegInf (Finite y) = (if y = 0 then NaN else if 0 < y then NegInf else PosInf)"
| "dmul PosInf PosInf = PosInf"
| "dmul PosInf NegInf = NegInf"
| "dmul NegInf PosInf = NegInf"
| "dmul NegInf NegInf = PosInf"

fun dadd :: "double \<Rightarrow> double \<Rightarrow> double" where
  "dadd (Finite x) (Finite y) = to_double (x + y)"
| "dadd NaN y = NaN"
| "dadd x NaN = NaN"
| "dadd PosInf NegInf = NaN"
| "dadd NegInf PosInf = NaN"
| "dadd PosInf y = PosInf"
| "dadd x PosInf = PosInf"
| "dadd NegInf y = NegInf"
| "dadd x NegInf = NegInf"

fun dmin :: "double \<Rightarrow> double \<Rightarrow> double" where
  "dmin NaN y = NaN"
| "dmin x NaN = NaN"
| "dmin NegInf y = NegInf"
| "dmin x NegInf = NegInf"
| "dmin PosInf y = y"
| "dmin x PosInf = x"
| "dmin (Finite x) (Finite y) = Finite (min x y)"

definition dpow2 :: "nat \<Rightarrow> double" where
  "dpow2 n = (if n < 1024 then Finite (2 ^ n) else PosInf)"

text \<open>\<open>x <= y\<close> on doubles: false when either side is NaN.\<close>

fun dle :: "double \<Rightarrow> double \<Rightarrow> bool" where
  "dle NaN y = False"
| "dle x NaN = False"
| "dle NegInf y = True"
| "dle x PosInf = True"
| "dle (Finite x) (Finite y) = (x \<le> y)"
| "dle x y = False"

section \<open>Streaming transport (src/src/datastream.ts)\<close>

text \<open>
  The class \<open>Datastream\<close> as a state record with one function for each method and for
  each callback it installs (\<open>onopen\<close>, \<open>onmessage\<close>, \<open>onclose\<close>, the reconnect timer).
  A function takes the state and returns the new state with the list of effects it has on
  the outside, in order. What the listeners of the emitter do, and the code that runs
  inside the worker, are outside the model.
\<close>

datatype channel = Main | Transaction

datatype readyState = CONNECTING | OPEN | CLOSING | CLOSED

text \<open>Control frames: \<open>JSON.stringify({ type: 'join', room })\<close> and its \<open>'leave'\<close> twin.\<close>

datatype frame = Join string | Leave string

text \<open>
  JavaScript values as \<open>JSON.parse\<close> yields them, with \<open>undefined\<close> for what a read
  finds missing. A number is named by its canonical text, the result of \<open>String(x)\<close>: two
  parsed numbers are the same value exactly when their texts are equal. An object is the
  list of its entries.
\<close>

datatype jsval =
  JUndefined | JNull | JBool bool | JNum string | JStr string | JArr "jsval list"
  | JObj "(string \<times> jsval) list"

text \<open>Truthiness, as \<open>&&\<close> and \<open>if\<close> test it.\<close>

fun truthy :: "jsval \<Rightarrow> bool" where
  "truthy JUndefined = False"
| "truthy JNull = False"
| "truthy (JBool b) = b"
| "truthy (JNum t) = (t \<noteq> ''0'')"
| "truthy (JStr s) = (s \<noteq> [])"
| "truthy (JArr xs) = True"
| "truthy (JObj kvs) = True"

text \<open>
  \<open>v.key\<close> for a key that no prototype defines (\<open>type\<close>, \<open>room\<close>, \<open>data\<close>, \<open>tx\<close>,
  \<open>token\<close>), on a value that is neither \<open>null\<close> nor \<open>undefined\<close>, where the read raises
  \<open>TypeError\<close>; and \<open>v?.key\<close>, which is \<open>undefined\<close> on those two.
\<close>

fun get_prop :: "jsval \<Rightarrow> string \<Rightarrow> jsval" where
  "get_prop (JObj kvs) key = (case map_of kvs key of None \<Rightarrow> JUndefined | Some v \<Rightarrow> v)"
| "get_prop v key = JUndefined"

definition nullish :: "jsval \<Rightarrow> bool" where
  "nullish v = (v = JUndefined \<or> v = JNull)"

definition opt_prop :: "jsval \<Rightarrow> string \<Rightarrow> jsval" where
  "opt_prop v key = (if nullish v then JUndefined else get_prop v key)"

text \<open>
  \<open>Set.prototype.has\<close> on a value that comes out of the current message: primitives are
  compared by value; an object or an array is a fresh reference, which no set holds yet.
\<close>

fun primitive :: "jsval \<Rightarrow> bool" where
  "primitive (JArr xs) = False"
| "primitive (JObj kvs) = False"
| "primitive v = True"

definition set_has :: "jsval set \<Rightarrow> jsval \<Rightarrow> bool" where
  "set_has S v = (primitive v \<and> v \<in> S)"

text \<open>
  The text of a value inside a template literal. An object from \<open>JSON.parse\<close> with a key
  \<open>toString\<close> of its own has no callable conversion, which raises \<open>TypeError\<close>; any other
  object gives \<open>[object Object]\<close>. An array joins the texts of its elements, the empty
  text for \<open>null\<close> and \<open>undefined\<close>.
\<close>

fun join_comma :: "string list \<Rightarrow> string" where
  "join_comma [] = []"
| "join_comma [x] = x"
| "join_comma (x # y # ys) = x @ '','' @ join_comma (y # ys)"

fun sequenceE :: "(error + 'a) list \<Rightarrow> error + 'a list" where
  "sequenceE [] = Inr []"
| "sequenceE (r # rs) = bindE r (\<lambda>x. bindE (sequenceE rs) (\<lambda>xs. Inr (x # xs)))"

fun ToString :: "jsval \<Rightarrow> error + string" where
  "ToString JUndefined = Inr ''undefined''"
| "ToString JNull = Inr ''null''"
| "ToString (JBool b) = Inr (if b then ''true'' else ''false'')"
| "ToString (JNum t) = Inr t"
| "ToString (JStr s) = Inr s"
| "ToString (JArr xs) =
     bindE (sequenceE (map (\<lambda>x. if nullish x then Inr [] else ToString x) xs))
       (\<lambda>texts. Inr (join_comma texts))"
| "ToString (JObj kvs) =
     (if map_of kvs ''toString'' \<noteq> None then Inl TypeError else Inr ''[object Object]'')"

text \<open>\<open>s.includes(sub)\<close> on strings.\<close>

fun str_includes :: "string \<Rightarrow> string \<Rightarrow> bool" where
  "str_includes [] sub = (sub = [])"
| "str_includes (c # s) sub = (take (length sub) (c # s) = sub \<or> str_includes s sub)"

text \<open>
  What \<open>emit\<close> passes to the listeners, and the messages posted to the worker. An effect
  \<open>Emit name arg\<close> is the call \<open>this.emit(name, arg)\<close>, with the event name as it is passed;
  the call is taken to return.
\<close>

datatype emit_arg = NoArg | Data jsval | Scope string | Attempt nat | ErrorArg

datatype worker_msg = ConnectMsg | DisconnectMsg | SubscribeMsg string | UnsubscribeMsg string

datatype effect =
  Emit jsval emit_arg
  | Send channel frame
  | Close channel
  | NewSocket channel
  | SetTimeout double
  | NewWorker
  | WorkerPost worker_msg
  | WorkerTerminate

text \<open>
  The fields of the class. \<open>socket\<close> and \<open>transactionSocket\<close> are \<open>None\<close> for \<open>null\<close>, else
  the \<open>readyState\<close> of the socket they refer to; \<open>subscribedRooms\<close> is the \<open>Set\<close> in
  insertion order; \<open>worker\<close> tells whether \<open>this.worker\<close> is set. \<open>timers\<close> belongs to the
  runtime: the delays of the reconnect callbacks that \<open>setTimeout\<close> holds and has not run
  yet. The delay settings and the timer delays are doubles.
\<close>

record datastream =
  wsUrl :: string
  socket :: "readyState option"
  transactionSocket :: "readyState option"
  reconnectAttempts :: nat
  reconnectDelay :: double
  reconnectDelayMax :: double
  randomizationFactor :: double
  subscribedRooms :: "string list"
  transactions :: "jsval set"
  autoReconnect :: bool
  isConnecting :: bool
  useWorker :: bool
  worker :: bool
  timers :: "double list"

record DatastreamConfig =
  cfg_wsUrl :: "string option"
  cfg_autoReconnect :: "bool option"
  cfg_reconnectDelay :: "double option"
  cfg_reconnectDelayMax :: "double option"
  cfg_randomizationFactor :: "double option"
  cfg_useWorker :: "bool option"

text \<open>
  \<open>x || d\<close> on an optional number: the default replaces \<open>undefined\<close>, zero and NaN.
\<close>

definition or_default :: "double option \<Rightarrow> double \<Rightarrow> double" where
  "or_default x d =
     (case x of
        None \<Rightarrow> d
      | Some NaN \<Rightarrow> d
      | Some (Finite v) \<Rightarrow> (if v = 0 then d else Finite v)
      | Some PosInf \<Rightarrow> PosInf
      | Some NegInf \<Rightarrow> NegInf)"

definition constructor :: "DatastreamConfig \<Rightarrow> datastream" where
  "constructor config =
     \<lparr>wsUrl = (case cfg_wsUrl config of None \<Rightarrow> [] | Some u \<Rightarrow> u),
      socket = None,
      transactionSocket = None,
      reconnectAttempts = 0,
      reconnectDelay = or_default (cfg_reconnectDelay config) (Finite 2500),
      reconnectDelayMax = or_default (cfg_reconnectDelayMax config) (Finite 4500),
      randomizationFactor = or_default (cfg_randomizationFactor config) (Finite (1 / 2)),
      subscribedRooms = [],
      transactions = {},
      autoReconnect = (cfg_autoReconnect config \<noteq> Some False),
      isConnecting = False,
      useWorker = (cfg_useWorker config = Some True),
      worker = False,
      timers = []\<rparr>"

text \<open>The routing rule and the socket field it selects.\<close>

definition room_channel :: "string \<Rightarrow> channel" where
  "room_channel room = (if str_includes room ''transaction'' then Transaction else Main)"

definition channel_socket :: "datastream \<Rightarrow> channel \<Rightarrow> readyState option" where
  "channel_socket s ch = (case ch of Main \<Rightarrow> socket s | Transaction \<Rightarrow> transactionSocket s)"

text \<open>\<open>Set.prototype.add\<close> and \<open>delete\<close> on the rooms.\<close>

definition set_add :: "string \<Rightarrow> string list \<Rightarrow> string list" where
  "set_add room rooms = (if room \<in> set rooms then rooms else rooms @ [room])"

definition set_delete :: "string \<Rightarrow> string list \<Rightarrow> string list" where
  "set_delete room rooms = removeAll room rooms"

text \<open>
  \<open>connect\<close>, up to the point where it waits for the two sockets; and
  \<open>connectWithWorker\<close>, up to the point where it waits for the worker (the \<open>Worker\<close>
  constructor is taken to succeed). What follows the wait is \<open>connect_resolved\<close> or
  \<open>connect_rejected\<close>.
\<close>

definition connectWithWorker :: "datastream \<Rightarrow> datastream \<times> effect list" where
  "connectWithWorker s =
     (if worker s then (s, [])
      else if isConnecting s then (s, [])
      else (s\<lparr>isConnecting := True, worker := True\<rparr>, [NewWorker, WorkerPost ConnectMsg]))"

definition connect :: "datastream \<Rightarrow> datastream \<times> effect list" where
  "connect s =
     (if useWorker s then connectWithWorker s
      else if socket s \<noteq> None \<and> transactionSocket s \<noteq> None then (s, [])
      else if isConnecting s then (s, [])
      else (s\<lparr>isConnecting := True\<rparr>, [NewSocket Main, NewSocket Transaction]))"

definition connect_resolved :: "datastream \<Rightarrow> datastream \<times> effect list" where
  "connect_resolved s = (s\<lparr>isConnecting := False\<rparr>, [Emit (JStr ''connected'') NoArg])"

text \<open>
  \<open>reconnect\<close>; \<open>r\<close> is the value \<open>Math.random()\<close> returns, a double in \<open>[0, 1)\<close>. The
  timer it sets is kept in \<open>timers\<close> until it runs. \<open>backoffDelay\<close> is its \<open>delay\<close>, and
  \<open>backoffJitter\<close> its \<open>jitter\<close>.
\<close>

definition backoffDelay :: "datastream \<Rightarrow> double" where
  "backoffDelay s =
     dmin (dmul (reconnectDelay s) (dpow2 (reconnectAttempts s))) (reconnectDelayMax s)"

definition backoffJitter :: "datastream \<Rightarrow> double" where
  "backoffJitter s = dmul (backoffDelay s) (randomizationFactor s)"

definition reconnect :: "datastream \<Rightarrow> double \<Rightarrow> datastream \<times> effect list" where
  "reconnect s r =
     (if \<not> autoReconnect s then (s, [])
      else (let delay = backoffDelay s;
                jitter = backoffJitter s;
                reconnectDelay' = dadd delay (dmul r jitter)
            in (s\<lparr>timers := timers s @ [reconnectDelay']\<rparr>,
                [Emit (JStr ''reconnecting'') (Attempt (reconnectAttempts s)),
                 SetTimeout reconnectDelay'])))"

definition connect_rejected :: "datastream \<Rightarrow> double \<Rightarrow> datastream \<times> effect list" where
  "connect_rejected s r =
     (let s1 = s\<lparr>isConnecting := False\<rparr>
      in if autoReconnect s1
         then (let (s2, out) = reconnect s1 r in (s2, Emit (JStr ''error'') ErrorArg # out))
         else (s1, [Emit (JStr ''error'') ErrorArg]))"

text \<open>The callback of the \<open>i\<close>-th pending reconnect timer runs.\<close>

definition timer_fired :: "datastream \<Rightarrow> nat \<Rightarrow> datastream \<times> effect list" where
  "timer_fired s i =
     (if i < length (timers s)
      then connect (s\<lparr>timers := take i (timers s) @ drop (Suc i) (timers s),
                      reconnectAttempts := reconnectAttempts s + 1\<rparr>)
      else (s, []))"

text \<open>\<open>resubscribeToRooms\<close>.\<close>

definition resubscribeToRooms :: "datastream \<Rightarrow> effect list" where
  "resubscribeToRooms s =
     (if socket s = Some OPEN \<and> transactionSocket s = Some OPEN
      then map (\<lambda>room. Send (room_channel room) (Join room)) (subscribedRooms s)
      else [])"

text \<open>\<open>socket.onopen\<close> of the socket that \<open>createSocket(type)\<close> made.\<close>

definition socket_onopen :: "datastream \<Rightarrow> channel \<Rightarrow> datastream \<times> effect list" where
  "socket_onopen s ch =
     (let s1 = (case ch of Main \<Rightarrow> s\<lparr>socket := Some OPEN\<rparr>
                | Transaction \<Rightarrow> s\<lparr>transactionSocket := Some OPEN\<rparr>);
          s2 = s1\<lparr>reconnectAttempts := 0\<rparr>
      in (s2, resubscribeToRooms s2))"

text \<open>The network changes the \<open>readyState\<close> of the socket a field refers to.\<close>

definition socket_state :: "datastream \<Rightarrow> channel \<Rightarrow> readyState \<Rightarrow> datastream" where
  "socket_state s ch rs =
     (case ch of
        Main \<Rightarrow> (if socket s = None then s else s\<lparr>socket := Some rs\<rparr>)
      | Transaction \<Rightarrow> (if transactionSocket s = None then s else s\<lparr>transactionSocket := Some rs\<rparr>))"

text \<open>\<open>socket.onclose\<close> installed by \<open>setupSocketListeners(socket, type)\<close>.\<close>

definition socket_onclose :: "datastream \<Rightarrow> channel \<Rightarrow> double \<Rightarrow> datastream \<times> effect list" where
  "socket_onclose s ch r =
     (let s1 = (case ch of Main \<Rightarrow> s\<lparr>socket := None\<rparr>
                | Transaction \<Rightarrow> s\<lparr>transactionSocket := None\<rparr>);
          scope = (case ch of Main \<Rightarrow> ''main'' | Transaction \<Rightarrow> ''transaction'')
      in if autoReconnect s1
         then (let (s2, out) = reconnect s1 r in (s2, Emit (JStr ''disconnected'') (Scope scope) # out))
         else (s1, [Emit (JStr ''disconnected'') (Scope scope)]))"

text \<open>
  \<open>socket.onmessage\<close>. The text of the frame either fails to parse or parses to a value
  \<open>message\<close>. An exception inside the \<open>try\<close> block ends the handling of the message with
  an \<open>error\<close> event; what was done before it stays done.

  \<open>price_room\<close> is \<open>message.room.includes('price:')\<close>: the substring test on a string, the
  membership test on an array, and \<open>TypeError\<close> on any other value, which has no such
  method. \<open>route\<close> is the rest of the \<open>try\<close> block after the dedup filter.
\<close>

datatype inbound = BadJson | Parsed jsval

definition price_room :: "jsval \<Rightarrow> error + bool" where
  "price_room room =
     (case room of
        JStr r \<Rightarrow> Inr (str_includes r ''price:'')
      | JArr xs \<Rightarrow> Inr (JStr ''price:'' \<in> set xs)
      | _ \<Rightarrow> Inl TypeError)"

definition route :: "jsval \<Rightarrow> error + effect list" where
  "route message =
     (let room = get_prop message ''room''; data = get_prop message ''data''
      in bindE (price_room room) (\<lambda>price.
           if price
           then (if nullish data then Inl TypeError
                 else bindE (ToString (get_prop data ''token'')) (\<lambda>token.
                        Inr [Emit (JStr (''price-by-token:'' @ token)) (Data data),
                             Emit room (Data data)]))
           else Inr [Emit room (Data data)]))"

definition route_effects :: "jsval \<Rightarrow> effect list" where
  "route_effects message =
     (case route message of Inl e \<Rightarrow> [Emit (JStr ''error'') ErrorArg] | Inr out \<Rightarrow> out)"

definition onmessage :: "datastream \<Rightarrow> inbound \<Rightarrow> datastream \<times> effect list" where
  "onmessage s event =
     (case event of
        BadJson \<Rightarrow> (s, [Emit (JStr ''error'') ErrorArg])
      | Parsed message \<Rightarrow>
          (if nullish message then (s, [Emit (JStr ''error'') ErrorArg])
           else if get_prop message ''type'' \<noteq> JStr ''message'' then (s, [])
           else (let tx = opt_prop (get_prop message ''data'') ''tx''
                 in if truthy tx \<and> set_has (transactions s) tx then (s, [])
                    else (let s1 = (if truthy tx then s\<lparr>transactions := insert tx (transactions s)\<rparr>
                                    else s)
                          in (s1, route_effects message)))))"

text \<open>The messages of one session in order of arrival: the effects of each.\<close>

fun onmessages :: "datastream \<Rightarrow> inbound list \<Rightarrow> effect list list" where
  "onmessages s [] = []"
| "onmessages s (m # ms) = snd (onmessage s m) # onmessages (fst (onmessage s m)) ms"

text \<open>A data frame whose payload has the value \<open>t\<close> in its \<open>tx\<close> field.\<close>

definition carries_tx :: "jsval \<Rightarrow> inbound \<Rightarrow> bool" where
  "carries_tx t m =
     (case m of BadJson \<Rightarrow> False
      | Parsed message \<Rightarrow>
          get_prop message ''type'' = JStr ''message'' \<and>
          opt_prop (get_prop message ''data'') ''tx'' = t)"

text \<open>\<open>disconnect\<close>.\<close>

definition disconnect :: "datastream \<Rightarrow> datastream \<times> effect list" where
  "disconnect s =
     (let (s1, out) =
            (if useWorker s \<and> worker s
             then (s\<lparr>worker := False\<rparr>, [WorkerPost DisconnectMsg, WorkerTerminate])
             else (s\<lparr>socket := None, transactionSocket := None\<rparr>,
                   (if socket s \<noteq> None then [Close Main] else []) @
                   (if transactionSocket s \<noteq> None then [Close Transaction] else [])))
      in (s1\<lparr>subscribedRooms := [], transactions := {}\<rparr>,
          out @ [Emit (JStr ''disconnected'') (Scope ''all'')]))"

text \<open>
  \<open>_subscribe(room)\<close>, without the handle it returns (registering a listener is the
  emitter's business), and \<open>unsubscribe(room)\<close>.
\<close>

definition subscribe :: "datastream \<Rightarrow> string \<Rightarrow> datastream \<times> effect list" where
  "subscribe s room =
     (let s1 = s\<lparr>subscribedRooms := set_add room (subscribedRooms s)\<rparr>
      in if useWorker s1 \<and> worker s1 then (s1, [WorkerPost (SubscribeMsg room)])
         else if channel_socket s1 (room_channel room) = Some OPEN
         then (s1, [Send (room_channel room) (Join room)])
         else connect s1)"

definition unsubscribe :: "datastream \<Rightarrow> string \<Rightarrow> datastream \<times> effect list" where
  "unsubscribe s room =
     (let s1 = s\<lparr>subscribedRooms := set_delete room (subscribedRooms s)\<rparr>
      in if useWorker s1 \<and> worker s1 then (s1, [WorkerPost (UnsubscribeMsg room)])
         else if channel_socket s1 (room_channel room) = Some OPEN
         then (s1, [Send (room_channel room) (Leave room)])
         else (s1, []))"

text \<open>
  The states the client can be in: what the constructor builds, and what any method call
  or callback makes of such a state.
\<close>

inductive reachable :: "datastream \<Rightarrow> bool" where
  init: "reachable (constructor config)"
| step_connect: "reachable s \<Longrightarrow> reachable (fst (connect s))"
| step_resolved: "reachable s \<Longrightarrow> reachable (fst (connect_resolved s))"
| step_rejected: "reachable s \<Longrightarrow> reachable (fst (connect_rejected s r))"
| step_timer: "reachable s \<Longrightarrow> reachable (fst (timer_fired s i))"
| step_onopen: "reachable s \<Longrightarrow> reachable (fst (socket_onopen s ch))"
| step_state: "reachable s \<Longrightarrow> reachable (socket_state s ch rs)"
| step_onclose: "reachable s \<Longrightarrow> reachable (fst (socket_onclose s ch r))"
| step_onmessage: "reachable s \<Longrightarrow> reachable (fst (onmessage s event))"
| step_disconnect: "reachable s \<Longrightarrow> reachable (fst (disconnect s))"
| step_subscribe: "reachable s \<Longrightarrow> reachable (fst (subscribe s room))"
| step_unsubscribe: "reachable s \<Longrightarrow> reachable (fst (unsubscribe s room))"

text \<open>States and messages for closed examples.\<close>

definition default_config :: DatastreamConfig where
  "default_config =
     \<lparr>cfg_wsUrl = Some ''wss://datastream'', cfg_autoReconnect = None, cfg_reconnectDelay = None,
      cfg_reconnectDelayMax = None, cfg_randomizationFactor = None, cfg_useWorker = None\<rparr>"

text \<open>
  A configuration with \<open>reconnectDelay: 3333\<close> and \<open>randomizationFactor:
  0.4478134732337665\<close>, the latter being the double \<open>4033545182374157 / 2^53\<close>; one with
  \<open>reconnectDelayMax: -1\<close>; and one with \<open>useWorker: true\<close>.
\<close>

definition factor_example :: real where
  "factor_example = 4033545182374157 / 2 ^ 53"

definition rounding_config :: DatastreamConfig where
  "rounding_config =
     default_config\<lparr>cfg_reconnectDelay := Some (Finite 3333),
                    cfg_randomizationFactor := Some (Finite factor_example)\<rparr>"

definition negative_max_config :: DatastreamConfig where
  "negative_max_config = default_config\<lparr>cfg_reconnectDelayMax := Some (Finite (- 1))\<rparr>"


definition data_frame :: "string \<Rightarrow> jsval \<Rightarrow> jsval" where
  "data_frame room data = JObj [(''type'', JStr ''message''), (''room'', JStr room), (''data'', data)]"

definition price_frame :: jsval where
  "price_frame =
     data_frame ''price:TOKEN_A''
       (JObj [(''token'', JStr ''TOKEN_A''), (''price'', JNum ''1.5''), (''tx'', JStr ''sig1'')])"

definition empty_tx_frame :: jsval where
  "empty_tx_frame =
     data_frame ''transaction:TOKEN_A''
       (JObj [(''tx'', JStr []), (''wallet'', JStr ''W1''), (''type'', JStr ''buy'')])"

definition tx_frame :: jsval where
  "tx_frame =
     data_frame ''transaction:TOKEN_A''
       (JObj [(''tx'', JStr ''sig1''), (''wallet'', JStr ''W1''), (''type'', JStr ''buy'')])"

definition roomless_frame :: jsval where
  "roomless_frame =
     JObj [(''type'', JStr ''message''), (''data'', JObj [(''tx'', JStr ''sig1'')])]"

definition connected_state :: datastream where
  "connected_state =
     fst (connect_resolved (fst (socket_onopen (fst (socket_onopen
       (fst (connect (constructor default_config))) Main)) Transaction)))"

definition subscribed_state :: datastream where
  "subscribed_state = fst (subscribe (fst (subscribe connected_state ''price:X'')) ''transaction:T'')"

definition backoff_state :: datastream where
  "backoff_state = fst (socket_onclose connected_state Main (Finite 0))"



section \<open>Decoder: results\<close>

lemma bytes_of_nat_sum:
  fixes n :: nat
  shows "n mod 256 + (256 * (n div 256 mod 256) +
      (65536 * (n div 65536 mod 256) + 16777216 * (n div 16777216))) = n"
proof -
  define a where "a = n div 256"
  define b where "b = a div 256"
  define c where "c = b div 256"
  have 1: "n div 65536 = b" "n div 16777216 = c"
    by (simp_all add: a_def b_def c_def div_mult2_eq[symmetric])
  have n: "n = 256 * a + n mod 256" by (simp add: a_def)
  have a: "a = 256 * b + a mod 256" by (simp add: b_def)
  have b: "b = 256 * c + b mod 256" by (simp add: c_def)
  have "n mod 256 + (256 * (a mod 256) + (65536 * (b mod 256) + 16777216 * c)) = n"
    using n a b by linarith
  then show ?thesis by (simp add: 1 a_def[symmetric])
qed

lemma le_value_u32le: "n < 2 ^ 32 \<Longrightarrow> le_value (u32le n) = n"
  by (simp add: le_value_def u32le_def unat_of_nat bytes_of_nat_sum)

lemma length_u32le: "length (u32le n) = 4"
  by (simp add: u32le_def)

lemma getUint32_at:
  "n < 2 ^ 32 \<Longrightarrow> off = length pre \<Longrightarrow> getUint32 (pre @ u32le n @ post) off = Inr n"
  by (simp add: getUint32_def length_u32le le_value_u32le)

lemma getFloat32_at:
  "off = length pre \<Longrightarrow> getFloat32 f32 (pre @ u32le (unat w) @ post) off = Inr (f32 w)"
  using unsigned_less [of w, where ?'a = nat]
  by (simp add: getFloat32_def length_u32le le_value_u32le)

lemma getUint8_at: "off = length pre \<Longrightarrow> getUint8 (pre @ b # post) off = Inr (unat b)"
  by (simp add: getUint8_def)

lemma length_wire_trade: "length (wire_trade t) = 21"
  by (simp add: wire_trade_def length_u32le)

lemma readWallets_layout:
  "list_all (\<lambda>w. length w < 256) ws \<Longrightarrow>
   readWallets dec (pre @ concat (map wire_wallet ws) @ post) (length ws) (length pre) acc =
     Inr (acc @ map dec ws, length pre + length (concat (map wire_wallet ws)))"
proof (induction ws arbitrary: pre acc)
  case Nil
  then show ?case by simp
next
  case (Cons w ws)
  let ?data = "(pre @ wire_wallet w) @ concat (map wire_wallet ws) @ post"
  have len: "unat (of_nat (length w) :: byte) = length w"
    using Cons.prems by (simp add: unat_of_nat)
  have data: "pre @ concat (map wire_wallet (w # ws)) @ post = ?data"
    by simp
  have rd: "getUint8 ?data (length pre) = Inr (length w)"
    using getUint8_at [of "length pre" pre "of_nat (length w)" "w @ concat (map wire_wallet ws) @ post"]
    by (simp add: wire_wallet_def len)
  have sl: "slice ?data (length pre + 1) (length pre + 1 + length w) = w"
    by (simp add: slice_def wire_wallet_def)
  have ih: "readWallets dec ?data (length ws) (length (pre @ wire_wallet w)) (acc @ [dec w]) =
      Inr ((acc @ [dec w]) @ map dec ws,
           length (pre @ wire_wallet w) + length (concat (map wire_wallet ws)))"
    using Cons.prems by (intro Cons.IH) simp
  have l: "length (pre @ wire_wallet w) = length pre + 1 + length w"
    by (simp add: wire_wallet_def)
  have step: "readWallets dec ?data (Suc (length ws)) (length pre) acc =
      readWallets dec ?data (length ws) (length pre + 1 + length w)
        (acc @ [dec (slice ?data (length pre + 1) (length pre + 1 + length w))])"
    by (simp only: readWallets.simps rd bindE_def sum.case)
  have "readWallets dec ?data (Suc (length ws)) (length pre) acc =
      Inr (acc @ map dec (w # ws), length pre + length (concat (map wire_wallet (w # ws))))"
    unfolding step sl using ih unfolding l by (simp add: wire_wallet_def)
  then show ?case
    unfolding data by simp
qed

lemma readTrade_one:
  assumes "data = pre @ wire_trade t @ post"
  shows "readTrades f32 num data wallets (Suc k) (length pre) events =
         readTrades f32 num data wallets k (length pre + 21)
           (events @ [decoded_event f32 num wallets t])"
proof -
  have w32: "unat x < 2 ^ 32" for x :: "32 word"
    using unsigned_less [of x, where ?'a = nat] by simp
  have 1: "getUint32 data (length pre) = Inr (unat (walletIndex t))"
    using getUint32_at [OF w32, of "length pre" pre "walletIndex t"]
    by (simp add: assms wire_trade_def)
  have 2: "getFloat32 f32 data (length pre + 4) = Inr (f32 (amountBits t))"
    using getFloat32_at [of "length pre + 4" "pre @ u32le (unat (walletIndex t))" f32 "amountBits t"]
    by (simp add: assms wire_trade_def length_u32le)
  have 3: "getFloat32 f32 data (length pre + 8) = Inr (f32 (priceUsdBits t))"
    using getFloat32_at [of "length pre + 8"
        "pre @ u32le (unat (walletIndex t)) @ u32le (unat (amountBits t))" f32 "priceUsdBits t"]
    by (simp add: assms wire_trade_def length_u32le)
  have 4: "getFloat32 f32 data (length pre + 12) = Inr (f32 (volumeBits t))"
    using getFloat32_at [of "length pre + 12"
        "pre @ u32le (unat (walletIndex t)) @ u32le (unat (amountBits t)) @
         u32le (unat (priceUsdBits t))" f32 "volumeBits t"]
    by (simp add: assms wire_trade_def length_u32le)
  have 5: "getUint8 data (length pre + 16) = Inr (unat (typeCode t))"
    using getUint8_at [of "length pre + 16"
        "pre @ u32le (unat (walletIndex t)) @ u32le (unat (amountBits t)) @
         u32le (unat (priceUsdBits t)) @ u32le (unat (volumeBits t))" "typeCode t"]
    by (simp add: assms wire_trade_def length_u32le)
  have 6: "getUint32 data (length pre + 17) = Inr (unat (timeSeconds t))"
    using getUint32_at [OF w32, of "length pre + 17"
        "pre @ u32le (unat (walletIndex t)) @ u32le (unat (amountBits t)) @
         u32le (unat (priceUsdBits t)) @ u32le (unat (volumeBits t)) @ [typeCode t]"
        "timeSeconds t" post]
    by (simp add: assms wire_trade_def length_u32le)
  have z: "(unat (typeCode t) = 0) = (typeCode t = 0)"
    by (simp add: unat_eq_0)
  show ?thesis
    by (simp only: readTrades.simps 1 2 3 4 5 6 bindE_def sum.case decoded_event_def z)
qed

lemma readTrades_layout:
  "readTrades f32 num (pre @ concat (map wire_trade ts) @ post) wallets (length ts) (length pre) acc =
     Inr (acc @ map (decoded_event f32 num wallets) ts, length pre + 21 * length ts)"
proof (induction ts arbitrary: pre acc)
  case Nil
  then show ?case by simp
next
  case (Cons t ts)
  let ?data = "(pre @ wire_trade t) @ concat (map wire_trade ts) @ post"
  have data: "pre @ concat (map wire_trade (t # ts)) @ post = ?data"
    by simp
  have step: "readTrades f32 num ?data wallets (Suc (length ts)) (length pre) acc =
      readTrades f32 num ?data wallets (length ts) (length pre + 21)
        (acc @ [decoded_event f32 num wallets t])"
    by (rule readTrade_one) simp
  have ih: "readTrades f32 num ?data wallets (length ts) (length (pre @ wire_trade t))
        (acc @ [decoded_event f32 num wallets t]) =
      Inr ((acc @ [decoded_event f32 num wallets t]) @ map (decoded_event f32 num wallets) ts,
           length (pre @ wire_trade t) + 21 * length ts)"
    by (rule Cons.IH)
  have l: "length (pre @ wire_trade t) = length pre + 21"
    by (simp add: length_wire_trade)
  have "readTrades f32 num ?data wallets (Suc (length ts)) (length pre) acc =
      Inr (acc @ map (decoded_event f32 num wallets) (t # ts), length pre + 21 * length (t # ts))"
    unfolding step using ih unfolding l by simp
  then show ?case
    unfolding data by simp
qed

lemma decodeLoops_layout:
  assumes "length ws < 2 ^ 32" and "list_all (\<lambda>w. length w < 256) ws" and "length ts < 2 ^ 32"
  shows "decodeLoops dec f32 num (wire_layout ws ts @ rest) =
         Inr (map (decoded_event f32 num (map dec ws)) ts, length (wire_layout ws ts))"
proof -
  let ?W = "concat (map wire_wallet ws)"
  let ?T = "concat (map wire_trade ts)"
  let ?data = "wire_layout ws ts @ rest"
  have lenT: "length ?T = 21 * length ts"
    by (induction ts) (simp_all add: length_wire_trade)
  have 1: "getUint32 ?data 0 = Inr (length ws)"
    using getUint32_at [OF assms(1), of 0 "[]" "?W @ u32le (length ts) @ ?T @ rest"]
    by (simp add: wire_layout_def)
  have 2: "readWallets dec ?data (length ws) 4 [] = Inr (map dec ws, 4 + length ?W)"
    using readWallets_layout [OF assms(2), of dec "u32le (length ws)"
        "u32le (length ts) @ ?T @ rest" "[]"]
    by (simp add: wire_layout_def length_u32le)
  have 3: "getUint32 ?data (4 + length ?W) = Inr (length ts)"
    using getUint32_at [OF assms(3), of "4 + length ?W" "u32le (length ws) @ ?W" "?T @ rest"]
    by (simp add: wire_layout_def length_u32le)
  have 4: "readTrades f32 num ?data (map dec ws) (length ts) (4 + length ?W + 4) [] =
      Inr (map (decoded_event f32 num (map dec ws)) ts, 4 + length ?W + 4 + 21 * length ts)"
    using readTrades_layout [of f32 num "u32le (length ws) @ ?W @ u32le (length ts)" ts rest
        "map dec ws" "[]"]
    by (simp add: wire_layout_def length_u32le add.commute add.left_commute)
  have len: "length (wire_layout ws ts) = 4 + length ?W + 4 + 21 * length ts"
    by (simp add: wire_layout_def length_u32le lenT)
  show ?thesis
    by (simp only: decodeLoops_def 1 2 3 4 bindE_def sum.case prod.case len)
qed

lemma getUint32_le: "getUint32 data off = Inr v \<Longrightarrow> off + 4 \<le> length data"
  by (simp add: getUint32_def split: if_splits)

lemma getUint8_append: "getUint8 p off = Inr v \<Longrightarrow> getUint8 (p @ q) off = Inr v"
  by (simp add: getUint8_def nth_append split: if_splits)

lemma getUint32_append: "getUint32 p off = Inr v \<Longrightarrow> getUint32 (p @ q) off = Inr v"
  by (simp add: getUint32_def split: if_splits)

lemma getFloat32_append: "getFloat32 f32 p off = Inr v \<Longrightarrow> getFloat32 f32 (p @ q) off = Inr v"
  by (simp add: getFloat32_def split: if_splits)

lemma bindE_Inr: "bindE r f = Inr y \<Longrightarrow> \<exists>v. r = Inr v \<and> f v = Inr y"
  by (cases r) (simp_all add: bindE_def)

lemma bindE_Inl: "bindE r f = Inl e \<Longrightarrow> r = Inl e \<or> (\<exists>v. r = Inr v \<and> f v = Inl e)"
  by (cases r) (simp_all add: bindE_def)

lemma readWallets_append:
  "readWallets dec p k off acc = Inr (ws, off') \<Longrightarrow>
   \<exists>ws'. readWallets dec (p @ q) k off acc' = Inr (ws', off')"
proof (induction k arbitrary: off acc acc')
  case 0
  then show ?case by simp
next
  case (Suc k)
  from Suc.prems obtain len where len: "getUint8 p off = Inr len"
    and rest: "readWallets dec p k (off + 1 + len)
        (acc @ [dec (slice p (off + 1) (off + 1 + len))]) = Inr (ws, off')"
    by (auto dest!: bindE_Inr)
  from Suc.IH [OF rest] obtain ws' where
    "readWallets dec (p @ q) k (off + 1 + len)
       (acc' @ [dec (slice (p @ q) (off + 1) (off + 1 + len))]) = Inr (ws', off')"
    by blast
  then show ?case
    by (simp add: getUint8_append [OF len] bindE_def)
qed

lemma readTrades_Suc_Inr:
  assumes "readTrades f32 num data wallets (Suc k) off acc = Inr r"
  shows "\<exists>wi am pr vo ty ti.
     getUint32 data off = Inr wi \<and> getFloat32 f32 data (off + 4) = Inr am \<and>
     getFloat32 f32 data (off + 8) = Inr pr \<and> getFloat32 f32 data (off + 12) = Inr vo \<and>
     getUint8 data (off + 16) = Inr ty \<and> getUint32 data (off + 17) = Inr ti \<and>
     readTrades f32 num data wallets k (off + 21)
        (acc @ [\<lparr>wallet = array_get wallets wi, amount = am, priceUsd = pr, volume = vo,
                  type = (if ty = 0 then ''buy'' else ''sell''), time = num (ti * 1000)\<rparr>]) = Inr r"
  using assms by (auto dest!: bindE_Inr split del: if_split)

lemma readTrades_append:
  "readTrades f32 num p wallets k off acc = Inr (evs, off') \<Longrightarrow>
   \<exists>evs'. readTrades f32 num (p @ q) wallets' k off acc' = Inr (evs', off')"
proof (induction k arbitrary: off acc acc')
  case 0
  then show ?case by simp
next
  case (Suc k)
  from readTrades_Suc_Inr [OF Suc.prems] obtain wi am pr vo ty ti where
    r1: "getUint32 p off = Inr wi" and r2: "getFloat32 f32 p (off + 4) = Inr am"
    and r3: "getFloat32 f32 p (off + 8) = Inr pr" and r4: "getFloat32 f32 p (off + 12) = Inr vo"
    and r5: "getUint8 p (off + 16) = Inr ty" and r6: "getUint32 p (off + 17) = Inr ti"
    and rest: "readTrades f32 num p wallets k (off + 21)
        (acc @ [\<lparr>wallet = array_get wallets wi, amount = am, priceUsd = pr, volume = vo,
                  type = (if ty = 0 then ''buy'' else ''sell''), time = num (ti * 1000)\<rparr>]) =
        Inr (evs, off')"
    by blast
  from Suc.IH [OF rest] obtain evs' where
    "readTrades f32 num (p @ q) wallets' k (off + 21)
        (acc' @ [\<lparr>wallet = array_get wallets' wi, amount = am, priceUsd = pr, volume = vo,
                  type = (if ty = 0 then ''buy'' else ''sell''), time = num (ti * 1000)\<rparr>]) =
        Inr (evs', off')"
    by blast
  then show ?case
    by (simp add: getUint32_append [OF r1] getFloat32_append [OF r2] getFloat32_append [OF r3]
        getFloat32_append [OF r4] getUint8_append [OF r5] getUint32_append [OF r6] bindE_def)
qed

lemma readTrades_le:
  "readTrades f32 num data wallets k off acc = Inr (evs, off') \<Longrightarrow> off \<le> length data \<Longrightarrow>
   off' \<le> length data"
proof (induction k arbitrary: off acc)
  case 0
  then show ?case by simp
next
  case (Suc k)
  from readTrades_Suc_Inr [OF Suc.prems(1)] obtain wi am pr vo ty ti where
    r1: "getUint32 data off = Inr wi" and r2: "getFloat32 f32 data (off + 4) = Inr am"
    and r3: "getFloat32 f32 data (off + 8) = Inr pr" and r4: "getFloat32 f32 data (off + 12) = Inr vo"
    and r5: "getUint8 data (off + 16) = Inr ty" and rd: "getUint32 data (off + 17) = Inr ti"
    and rest: "readTrades f32 num data wallets k (off + 21)
        (acc @ [\<lparr>wallet = array_get wallets wi, amount = am, priceUsd = pr, volume = vo,
                  type = (if ty = 0 then ''buy'' else ''sell''), time = num (ti * 1000)\<rparr>]) =
        Inr (evs, off')"
    by blast
  from getUint32_le [OF rd] have "off + 21 \<le> length data" by simp
  from Suc.IH [OF rest this] show ?case .
qed

lemma decodeLoops_le:
  assumes "decodeLoops dec f32 num data = Inr (evs, off)"
  shows "off \<le> length data"
proof -
  from assms obtain wallets o1 tc where
    "getUint32 data o1 = Inr tc"
    and tr: "readTrades f32 num data wallets tc (o1 + 4) [] = Inr (evs, off)"
    unfolding decodeLoops_def by (auto dest!: bindE_Inr)
  from getUint32_le [OF this(1)] readTrades_le [OF tr] show ?thesis by simp
qed

lemma decodeLoops_append:
  assumes "decodeLoops dec f32 num p = Inr (evs, off)"
  shows "\<exists>evs'. decodeLoops dec f32 num (p @ q) = Inr (evs', off)"
proof -
  from assms obtain wc wallets o1 tc where
    1: "getUint32 p 0 = Inr wc"
    and 2: "readWallets dec p wc 4 [] = Inr (wallets, o1)"
    and 3: "getUint32 p o1 = Inr tc"
    and 4: "readTrades f32 num p wallets tc (o1 + 4) [] = Inr (evs, off)"
    unfolding decodeLoops_def by (auto dest!: bindE_Inr)
  from readWallets_append [OF 2, of q "[]"] obtain wallets' where
    w2: "readWallets dec (p @ q) wc 4 [] = Inr (wallets', o1)" by blast
  from readTrades_append [OF 4, of q wallets' "[]"] obtain evs' where
    t4: "readTrades f32 num (p @ q) wallets' tc (o1 + 4) [] = Inr (evs', off)" by blast
  show ?thesis
    by (simp add: decodeLoops_def getUint32_append [OF 1] w2 getUint32_append [OF 3] t4 bindE_def)
qed

lemma readWallets_error: "readWallets dec data k off acc = Inl e \<Longrightarrow> e = RangeError"
  by (induction k arbitrary: off acc)
     (auto dest!: bindE_Inl simp: getUint8_def split: if_splits)

lemma readTrades_error: "readTrades f32 num data wallets k off acc = Inl e \<Longrightarrow> e = RangeError"
  by (induction k arbitrary: off acc)
     (auto dest!: bindE_Inl simp: getUint8_def getUint32_def getFloat32_def split: if_splits)

lemma decodeLoops_error: "decodeLoops dec f32 num data = Inl e \<Longrightarrow> e = RangeError"
  unfolding decodeLoops_def
  by (auto dest!: bindE_Inl dest: readWallets_error readTrades_error
      simp: getUint32_def split: if_splits)

lemma decode_truncated:
  assumes "length ws < 2 ^ 32" and "list_all (\<lambda>w. length w < 256) ws" and "length ts < 2 ^ 32"
    and "n < length (wire_layout ws ts)"
  shows "decodeBinaryEvents dec f32 num (take n (wire_layout ws ts)) = Inl RangeError"
proof (cases "decodeLoops dec f32 num (take n (wire_layout ws ts))")
  case (Inl e)
  with decodeLoops_error [OF Inl] show ?thesis
    by (simp add: decodeBinaryEvents_def)
next
  case (Inr r)
  obtain evs off where r: "r = (evs, off)" by (cases r)
  from Inr r decodeLoops_le have "off \<le> length (take n (wire_layout ws ts))" by blast
  with assms(4) have off: "off < length (wire_layout ws ts)" by simp
  from decodeLoops_append [of dec f32 num "take n (wire_layout ws ts)" evs off
      "drop n (wire_layout ws ts)"] Inr r
  obtain evs' where "decodeLoops dec f32 num (wire_layout ws ts) = Inr (evs', off)" by auto
  with decodeLoops_layout [OF assms(1-3), of dec f32 num "[]"] off
  show ?thesis by simp
qed

lemma event_of_decoded:
  "unat (walletIndex t) < length ws \<Longrightarrow>
   decoded_event f32 num (map dec ws) t = event_of dec f32 num ws t"
  by (simp add: decoded_event_def event_of_def array_get_def)

lemma decode_layout_events:
  assumes "length ws < 2 ^ 32" and "list_all (\<lambda>w. length w < 256) ws" and "length ts < 2 ^ 32"
    and "list_all (\<lambda>t. unat (walletIndex t) < length ws) ts"
  shows "decodeBinaryEvents dec f32 num (wire_layout ws ts) = Inr (map (event_of dec f32 num ws) ts)"
proof -
  have "map (decoded_event f32 num (map dec ws)) ts = map (event_of dec f32 num ws) ts"
    using assms(4) by (induction ts) (simp_all add: event_of_decoded)
  with decodeLoops_layout [OF assms(1-3), of dec f32 num "[]"] show ?thesis
    by (simp add: decodeBinaryEvents_def)
qed

lemma ascii_A: "ascii_text [0x41] = ''A''"
  by code_simp

lemma ascii_BB: "ascii_text [0x42, 0x42] = ''BB''"
  by code_simp

lemma example_layout:
  "wire_layout example_wallets example_trades =
     [2, 0, 0, 0, 1, 0x41, 2, 0x42, 0x42, 2, 0, 0, 0,
      0, 0, 0, 0, 0, 0, 0x80, 0x3F, 0, 0, 0x20, 0x40, 0, 0, 0x20, 0x41, 0, 0xE8, 3, 0, 0,
      1, 0, 0, 0, 0, 0, 0x40, 0x40, 0x66, 0x66, 0x26, 0x40, 0, 0, 0xA0, 0x40, 1, 0xE9, 3, 0, 0]"
  by (simp add: wire_layout_def example_wallets_def example_trades_def wire_wallet_def
      wire_trade_def u32le_def)

lemma example_events:
  "map (event_of ascii_text f32 num example_wallets) example_trades =
     [\<lparr>wallet = Some ''A'', amount = f32 0x3F800000, priceUsd = f32 0x40200000,
       volume = f32 0x41200000, type = ''buy'', time = num 1000000\<rparr>,
      \<lparr>wallet = Some ''BB'', amount = f32 0x40400000, priceUsd = f32 0x40266666,
       volume = f32 0x40A00000, type = ''sell'', time = num 1001000\<rparr>]"
  by (simp add: event_of_def example_wallets_def example_trades_def ascii_A ascii_BB)

lemma example_wellformed:
  "length example_wallets < 2 ^ 32 \<and> list_all (\<lambda>w. length w < 256) example_wallets \<and>
   length example_trades < 2 ^ 32 \<and>
   list_all (\<lambda>t. unat (walletIndex t) < length example_wallets) example_trades"
  by (simp add: example_wallets_def example_trades_def)

text \<open>
  C3. A buffer in the wire layout (at most \<open>2^32 - 1\<close> wallets of at most 255 bytes, at
  most \<open>2^32 - 1\<close> trade records, every wallet index inside the wallet table) decodes to
  the trades in order, each with its time in milliseconds, \<open>timeSeconds * 1000\<close>, and its
  wallet read from the table at its index. In particular the example of the specification
  decodes to two events with times 1000000 and 1001000 and wallets \<open>"A"\<close> and \<open>"BB"\<close>.
\<close>

theorem decode_wire_layout:
  "(length ws < 2 ^ 32 \<and> list_all (\<lambda>w. length w < 256) ws \<and> length ts < 2 ^ 32 \<and>
    list_all (\<lambda>t. unat (walletIndex t) < length ws) ts \<longrightarrow>
      decodeBinaryEvents dec f32 num (wire_layout ws ts) =
        Inr (map (event_of dec f32 num ws) ts)) \<and>
   decodeBinaryEvents ascii_text f32 num (wire_layout example_wallets example_trades) =
     Inr [\<lparr>wallet = Some ''A'', amount = f32 0x3F800000, priceUsd = f32 0x40200000,
            volume = f32 0x41200000, type = ''buy'', time = num 1000000\<rparr>,
          \<lparr>wallet = Some ''BB'', amount = f32 0x40400000, priceUsd = f32 0x40266666,
            volume = f32 0x40A00000, type = ''sell'', time = num 1001000\<rparr>]"
proof (intro conjI impI)
  assume "length ws < 2 ^ 32 \<and> list_all (\<lambda>w. length w < 256) ws \<and> length ts < 2 ^ 32 \<and>
    list_all (\<lambda>t. unat (walletIndex t) < length ws) ts"
  then show "decodeBinaryEvents dec f32 num (wire_layout ws ts) =
      Inr (map (event_of dec f32 num ws) ts)"
    by (intro decode_layout_events) simp_all
next
  from example_wellformed show
    "decodeBinaryEvents ascii_text f32 num (wire_layout example_wallets example_trades) =
     Inr [\<lparr>wallet = Some ''A'', amount = f32 0x3F800000, priceUsd = f32 0x40200000,
            volume = f32 0x41200000, type = ''buy'', time = num 1000000\<rparr>,
          \<lparr>wallet = Some ''BB'', amount = f32 0x40400000, priceUsd = f32 0x40266666,
            volume = f32 0x40A00000, type = ''sell'', time = num 1001000\<rparr>]"
    unfolding example_events [symmetric] by (intro decode_layout_events) simp_all
qed

theorem decode_wire_layout_witness:
  "length example_wallets < 2 ^ 32 \<and> list_all (\<lambda>w. length w < 256) example_wallets \<and>
   length example_trades < 2 ^ 32 \<and>
   list_all (\<lambda>t. unat (walletIndex t) < length example_wallets) example_trades \<and>
   decodeBinaryEvents ascii_text Float32 Integer
     [2, 0, 0, 0, 1, 0x41, 2, 0x42, 0x42, 2, 0, 0, 0,
      0, 0, 0, 0, 0, 0, 0x80, 0x3F, 0, 0, 0x20, 0x40, 0, 0, 0x20, 0x41, 0, 0xE8, 3, 0, 0,
      1, 0, 0, 0, 0, 0, 0x40, 0x40, 0x66, 0x66, 0x26, 0x40, 0, 0, 0xA0, 0x40, 1, 0xE9, 3, 0, 0] =
     Inr [\<lparr>wallet = Some ''A'', amount = Float32 0x3F800000, priceUsd = Float32 0x40200000,
            volume = Float32 0x41200000, type = ''buy'', time = Integer 1000000\<rparr>,
          \<lparr>wallet = Some ''BB'', amount = Float32 0x40400000, priceUsd = Float32 0x40266666,
            volume = Float32 0x40A00000, type = ''sell'', time = Integer 1001000\<rparr>]"
  using decode_wire_layout [of example_wallets example_trades ascii_text Float32 Integer]
    example_wellformed
  by (simp only: example_layout example_events)

lemma bad_index_layout:
  "wire_layout [ [0x41]]
     [\<lparr>walletIndex = 5, amountBits = 0x3F800000, priceUsdBits = 0x40200000,
       volumeBits = 0x41200000, typeCode = 0, timeSeconds = 1000\<rparr>] =
   [1, 0, 0, 0, 1, 0x41, 1, 0, 0, 0,
    5, 0, 0, 0, 0, 0, 0x80, 0x3F, 0, 0, 0x20, 0x40, 0, 0, 0x20, 0x41, 0, 0xE8, 3, 0, 0]"
  by (simp add: wire_layout_def wire_wallet_def wire_trade_def u32le_def)

text \<open>
  C4. A buffer shorter than its declared counts imply, that is a proper prefix of a buffer
  in the wire layout, makes the whole call raise \<open>RangeError\<close>: no events are returned.
  A wallet index outside the wallet table is not an error: the buffer decodes, and the
  event of that record has no wallet (\<open>undefined\<close>).
\<close>

theorem decode_malformed:
  "length ws < 2 ^ 32 \<and> list_all (\<lambda>w. length w < 256) ws \<and> length ts < 2 ^ 32 \<longrightarrow>
     (n < length (wire_layout ws ts) \<longrightarrow>
        decodeBinaryEvents dec f32 num (take n (wire_layout ws ts)) = Inl RangeError) \<and>
     decodeBinaryEvents dec f32 num (wire_layout ws ts) =
       Inr (map (decoded_event f32 num (map dec ws)) ts) \<and>
     (length ws \<le> unat (walletIndex t) \<longrightarrow>
        wallet (decoded_event f32 num (map dec ws) t) = None)"
proof (intro impI conjI)
  assume b: "length ws < 2 ^ 32 \<and> list_all (\<lambda>w. length w < 256) ws \<and> length ts < 2 ^ 32"
  then show "decodeBinaryEvents dec f32 num (wire_layout ws ts) =
      Inr (map (decoded_event f32 num (map dec ws)) ts)"
    using decodeLoops_layout [of ws ts dec f32 num "[]"] by (simp add: decodeBinaryEvents_def)
  assume "n < length (wire_layout ws ts)"
  with b show "decodeBinaryEvents dec f32 num (take n (wire_layout ws ts)) = Inl RangeError"
    by (intro decode_truncated) simp_all
next
  assume "length ws \<le> unat (walletIndex t)"
  then show "wallet (decoded_event f32 num (map dec ws) t) = None"
    by (simp add: decoded_event_def array_get_def)
qed

theorem decode_malformed_witness:
  "length example_wallets < 2 ^ 32 \<and> list_all (\<lambda>w. length w < 256) example_wallets \<and>
   length example_trades < 2 ^ 32 \<and>
   (30::nat) < length (wire_layout example_wallets example_trades) \<and>
   decodeBinaryEvents ascii_text Float32 Integer
     [2, 0, 0, 0, 1, 0x41, 2, 0x42, 0x42, 2, 0, 0, 0,
      0, 0, 0, 0, 0, 0, 0x80, 0x3F, 0, 0, 0x20, 0x40, 0, 0, 0x20, 0x41, 0] = Inl RangeError"
  using decode_malformed [of example_wallets example_trades 30 ascii_text Float32 Integer]
    example_wellformed
  by (simp only: example_layout) simp

theorem decode_bad_index_counterexample:
  "decodeBinaryEvents ascii_text Float32 Integer
     [1, 0, 0, 0, 1, 0x41, 1, 0, 0, 0,
      5, 0, 0, 0, 0, 0, 0x80, 0x3F, 0, 0, 0x20, 0x40, 0, 0, 0x20, 0x41, 0, 0xE8, 3, 0, 0] =
   Inr [\<lparr>wallet = None, amount = Float32 0x3F800000, priceUsd = Float32 0x40200000,
          volume = Float32 0x41200000, type = ''buy'', time = Integer 1000000\<rparr>]"
  unfolding bad_index_layout [symmetric]
  using decodeLoops_layout [of "[ [0x41]]"
      "[\<lparr>walletIndex = 5, amountBits = 0x3F800000, priceUsdBits = 0x40200000,
         volumeBits = 0x41200000, typeCode = 0, timeSeconds = 1000\<rparr>]"
      ascii_text Float32 Integer "[]"]
  by (simp add: decodeBinaryEvents_def decoded_event_def array_get_def)

text \<open>
  C7. Decoding the empty buffer: the first read, of the wallet count, lies outside the
  view, so the call raises \<open>RangeError\<close>; it does not return the empty sequence. The
  shortest buffer that decodes to the empty sequence has eight bytes, two zero counts.
\<close>

theorem decode_empty_buffer_raises:
  "decodeBinaryEvents dec f32 num [] = Inl RangeError \<and>
   decodeBinaryEvents dec f32 num [0, 0, 0, 0, 0, 0, 0, 0] = Inr []"
  by (simp add: decodeBinaryEvents_def decodeLoops_def getUint32_def bindE_def le_value_def)

theorem decode_empty_buffer_counterexample:
  "decodeBinaryEvents ascii_text Float32 Integer [] \<noteq> Inr []"
  by (simp add: decodeBinaryEvents_def decodeLoops_def getUint32_def bindE_def)

section \<open>Aggregator: results\<close>

lemma processRange_done: "end \<le> i \<Longrightarrow> processRange ops ts events i end stats = Inr stats"
  by (subst processRange.simps) simp

lemma processRange_split:
  "i \<le> j \<Longrightarrow> j \<le> k \<Longrightarrow>
   processRange ops ts events i k stats =
     bindE (processRange ops ts events i j stats) (processRange ops ts events j k)"
proof (induction ops ts events i j stats rule: processRange.induct)
  case (1 ops ts events i j stats)
  show ?case
  proof (cases "i < j")
    case False
    with "1.prems" have "i = j" by simp
    then show ?thesis
      by (simp add: processRange_done bindE_def)
  next
    case True
    with "1.prems" have ik: "i < k" by simp
    show ?thesis
    proof (cases "array_get events i")
      case None
      have a: "processRange ops ts events i k stats = Inl TypeError"
        using ik None by (subst processRange.simps) simp
      have b: "processRange ops ts events i j stats = Inl TypeError"
        using True None by (subst processRange.simps) simp
      show ?thesis
        unfolding a b by (simp add: bindE_def)
    next
      case (Some event)
      show ?thesis
      proof (cases "processEvent ops ts event stats")
        case (Inl e)
        have a: "processRange ops ts events i k stats = Inl e"
          using ik Some Inl by (subst processRange.simps) simp
        have b: "processRange ops ts events i j stats = Inl e"
          using True Some Inl by (subst processRange.simps) simp
        show ?thesis
          unfolding a b by (simp add: bindE_def)
      next
        case (Inr stats')
        from True "1.prems" have "i + 1 \<le> j" by simp
        from "1.IH" [OF True Some Inr this "1.prems"(2)]
        have ih: "processRange ops ts events (i + 1) k stats' =
            bindE (processRange ops ts events (i + 1) j stats') (processRange ops ts events j k)" .
        have a: "processRange ops ts events i k stats = processRange ops ts events (i + 1) k stats'"
          using ik Some Inr by (subst processRange.simps) simp
        have b: "processRange ops ts events i j stats = processRange ops ts events (i + 1) j stats'"
          using True Some Inr by (subst processRange.simps) simp
        show ?thesis
          unfolding a b by (rule ih)
      qed
    qed
  qed
qed

lemma processChunks_range:
  "map_sum id fst (processChunks ops ts events onProgress chunk stats progress) =
   processRange ops ts events chunk (length events) stats"
proof (induction ops ts events onProgress chunk stats progress rule: processChunks.induct)
  case (1 ops ts events onProgress chunk stats progress)
  show ?case
  proof (cases "chunk < length events")
    case False
    then show ?thesis
      by (subst processChunks.simps) (simp add: processRange_done)
  next
    case True
    define e where "e = min (chunk + CHUNK_SIZE) (length events)"
    have split: "processRange ops ts events chunk (length events) stats =
        bindE (processRange ops ts events chunk e stats)
              (processRange ops ts events e (length events))"
      using True by (intro processRange_split) (simp_all add: e_def)
    show ?thesis
    proof (cases "processRange ops ts events chunk e stats")
      case (Inl err)
      have "processChunks ops ts events onProgress chunk stats progress = Inl err"
        using True Inl by (subst processChunks.simps) (simp add: e_def [symmetric])
      then show ?thesis
        unfolding split Inl by (simp add: bindE_def)
    next
      case (Inr stats')
      have tail: "processRange ops ts events e (length events) stats' =
          processRange ops ts events (chunk + CHUNK_SIZE) (length events) stats'"
        by (cases "chunk + CHUNK_SIZE \<le> length events")
           (simp_all add: e_def min_def processRange_done)
      from "1.IH" [OF True e_def Inr]
      have ih: "map_sum id fst (processChunks ops ts events onProgress (chunk + CHUNK_SIZE) stats'
          (if onProgress
           then progress @
             [js_mul ops (js_div ops (js_num ops e) (js_num ops (length events))) (js_num ops 100)]
           else progress)) =
          processRange ops ts events (chunk + CHUNK_SIZE) (length events) stats'" .
      have c: "processChunks ops ts events onProgress chunk stats progress =
          processChunks ops ts events onProgress (chunk + CHUNK_SIZE) stats'
          (if onProgress
           then progress @
             [js_mul ops (js_div ops (js_num ops e) (js_num ops (length events))) (js_num ops 100)]
           else progress)"
        using True Inr by (subst processChunks.simps) (simp add: e_def [symmetric])
      show ?thesis
        unfolding c split Inr by (simp only: bindE_def sum.case tail ih)
    qed
  qed
qed


lemma applyTimeframes_total:
  "fst ` set bs \<subseteq> dom stats \<Longrightarrow>
   \<exists>stats'. applyTimeframes ops event timeDiff bs stats = Inr stats' \<and> dom stats' = dom stats"
proof (induction bs arbitrary: stats)
  case Nil
  then show ?case by simp
next
  case (Cons b bs)
  obtain key seconds where b: "b = (key, seconds)" by (cases b)
  from Cons.prems b obtain period where p: "stats key = Some period" by auto
  have d: "dom (stats(key \<mapsto> updatePeriod ops event period)) = dom stats"
    using p by auto
  from Cons.prems have sub: "fst ` set bs \<subseteq> dom stats" by simp
  show ?case
  proof (cases "js_gt ops timeDiff (js_num ops seconds)")
    case True
    with Cons.IH [OF sub] b show ?thesis by simp
  next
    case False
    from sub d have "fst ` set bs \<subseteq> dom (stats(key \<mapsto> updatePeriod ops event period))"
      by simp
    from Cons.IH [OF this] obtain stats' where
      a: "applyTimeframes ops event timeDiff bs (stats(key \<mapsto> updatePeriod ops event period)) =
          Inr stats'"
      and "dom stats' = dom (stats(key \<mapsto> updatePeriod ops event period))" by blast
    with d have d': "dom stats' = dom stats" by (simp only:)
    have "applyTimeframes ops event timeDiff (b # bs) stats =
        applyTimeframes ops event timeDiff bs (stats(key \<mapsto> updatePeriod ops event period))"
      using False p by (simp add: b)
    with a d' show ?thesis by (simp only:) blast
  qed
qed

lemma processEvent_total:
  "fst ` set timeframeBoundaries \<subseteq> dom stats \<Longrightarrow>
   \<exists>stats'. processEvent ops ts event stats = Inr stats' \<and> dom stats' = dom stats"
  using applyTimeframes_total [of timeframeBoundaries stats]
  by (simp add: processEvent_def Let_def)

lemma processRange_total:
  "end \<le> length events \<Longrightarrow> fst ` set timeframeBoundaries \<subseteq> dom stats \<Longrightarrow>
   \<exists>stats'. processRange ops ts events i end stats = Inr stats' \<and> dom stats' = dom stats"
proof (induction ops ts events i "end" stats rule: processRange.induct)
  case (1 ops ts events i "end" stats)
  show ?case
  proof (cases "i < end")
    case False
    then show ?thesis by (simp add: processRange_done)
  next
    case True
    with "1.prems"(1) have get: "array_get events i = Some (events ! i)"
      by (simp add: array_get_def)
    from processEvent_total [OF "1.prems"(2)] obtain stats' where
      pe: "processEvent ops ts (events ! i) stats = Inr stats'" and d: "dom stats' = dom stats"
      by blast
    from "1.prems"(2) d have "fst ` set timeframeBoundaries \<subseteq> dom stats'" by simp
    from "1.IH" [OF True get pe "1.prems"(1) this] d
    obtain stats'' where "processRange ops ts events (i + 1) end stats' = Inr stats''"
      and "dom stats'' = dom stats" by auto
    moreover have "processRange ops ts events i end stats =
        processRange ops ts events (i + 1) end stats'"
      using True get pe by (subst processRange.simps) simp
    ultimately show ?thesis by simp
  qed
qed

lemma dom_foldl_upd:
  "dom (foldl (\<lambda>stats (key, seconds). stats(key \<mapsto> v)) m bs) = dom m \<union> fst ` set bs"
  by (induction bs arbitrary: m) (auto split: prod.splits)

lemma dom_initStats: "dom (initStats ops) = fst ` set timeframes"
  by (simp add: initStats_def dom_foldl_upd timeframeBoundaries_def)

lemma keys_timeframeBoundaries: "fst ` set timeframeBoundaries = fst ` set timeframes"
  by (simp add: timeframeBoundaries_def)

lemma transformStats_total:
  "set keys \<subseteq> dom stats \<Longrightarrow> \<exists>r. transformStats ops currentPrice stats keys acc = Inr r"
proof (induction keys arbitrary: acc)
  case Nil
  then show ?case by simp
next
  case (Cons k keys)
  then obtain period where "stats k = Some period" by auto
  with Cons show ?case by simp
qed

lemma processEventsAsync_processEvents:
  "map_sum id fst (processEventsAsync dec f32 ops now binaryData onProgress) =
   processEvents dec f32 ops now binaryData"
proof (cases "inputEvents dec f32 ops binaryData")
  case (Inl e)
  then show ?thesis
    by (simp add: processEventsAsync_def processEvents_def bindE_def)
next
  case (Inr events)
  show ?thesis
  proof (cases events)
    case Nil
    with Inr show ?thesis
      by (simp add: processEventsAsync_def processEvents_def bindE_def)
  next
    case (Cons first rest)
    let ?ts = "js_div ops now (js_num ops 1000)"
    let ?cp = "js_parseFloat ops (priceUsd first)"
    have r: "map_sum id fst (processChunks ops ?ts events onProgress 0 (initStats ops) []) =
        processRange ops ?ts events 0 (length events) (initStats ops)"
      by (rule processChunks_range)
    show ?thesis
    proof (cases "processChunks ops ?ts events onProgress 0 (initStats ops) []")
      case (Inl e)
      with r have "processRange ops ?ts events 0 (length events) (initStats ops) = Inl e"
        by simp
      with Inl Inr Cons show ?thesis
        by (simp add: processEventsAsync_def processEvents_def bindE_def Let_def)
    next
      case c: (Inr sp)
      obtain stats progress where sp: "sp = (stats, progress)" by (cases sp)
      from r c sp have "processRange ops ?ts events 0 (length events) (initStats ops) = Inr stats"
        by simp
      with c sp Inr Cons show ?thesis
        by (cases "transformStats ops ?cp stats (map fst timeframes) []")
           (simp_all add: processEventsAsync_def processEvents_def bindE_def Let_def)
    qed
  qed
qed

lemma processEvents_total:
  fixes events :: "('s, 'f) ProcessedEvent list"
  shows "\<exists>r. processEvents dec f32 ops now (EventArray events) = Inr r"
proof (cases events)
  case Nil
  then show ?thesis
    by (simp add: processEvents_def inputEvents_def bindE_def)
next
  case (Cons first rest)
  let ?ts = "js_div ops now (js_num ops 1000)"
  have "fst ` set timeframeBoundaries \<subseteq> dom (initStats ops :: ('s, 'f) stats)"
    by (simp add: dom_initStats keys_timeframeBoundaries)
  from processRange_total [OF le_refl this, of ops ?ts events 0]
  obtain stats :: "('s, 'f) stats" where
    pr: "processRange ops ?ts events 0 (length events) (initStats ops) = Inr stats"
    and d: "dom stats = dom (initStats ops :: ('s, 'f) stats)" by blast
  from d have "set (map fst timeframes) \<subseteq> dom stats"
    by (simp add: dom_initStats)
  from transformStats_total [OF this]
  obtain r where "transformStats ops (js_parseFloat ops (priceUsd first)) stats
      (map fst timeframes) [] = Inr r" by blast
  with pr Cons show ?thesis
    by (simp add: processEvents_def inputEvents_def bindE_def Let_def)
qed

text \<open>
  C10. For every array of events and every value of the clock, \<open>processEvents\<close> and
  \<open>processEventsAsync\<close> both return, and they return the same statistics: the same
  timeframe keys in the same order, each with the same record of counts, volumes, unique
  wallet counts, initial price and price change. This holds for any arithmetic on the
  numbers, since both run the same operations in the same order.
\<close>

theorem processEventsAsync_same_statistics:
  "\<exists>r progress.
     processEvents dec f32 ops now (EventArray events) = Inr r \<and>
     processEventsAsync dec f32 ops now (EventArray events) onProgress = Inr (r, progress)"
proof -
  obtain r where r: "processEvents dec f32 ops now (EventArray events) = Inr r"
    using processEvents_total [of dec f32 ops now events] by (elim exE)
  with processEventsAsync_processEvents [of dec f32 ops now "EventArray events" onProgress]
  have "map_sum id fst (processEventsAsync dec f32 ops now (EventArray events) onProgress) = Inr r"
    by simp
  then obtain progress where
    "processEventsAsync dec f32 ops now (EventArray events) onProgress = Inr (r, progress)"
    by (cases "processEventsAsync dec f32 ops now (EventArray events) onProgress") auto
  with r show ?thesis by blast
qed

text \<open>
  The model on the example of the specification: three buys priced 2.5, one 30 seconds
  and two 200 seconds before the clock. The one-minute window counts one transaction,
  every longer window three.
\<close>

lemma timeframeBoundaries_sorted: "timeframeBoundaries = timeframes"
  by (simp add: timeframeBoundaries_def timeframes_def)

lemma aggregator_example:
  "map (\<lambda>(key, st). (key, tf_transactions st))
     (projr (processEvents dec f32 real_ops 1000000
        (EventArray [example_event 970000, example_event 800000, example_event 800000]))) =
   [(''1m'', 1), (''5m'', 3), (''15m'', 3), (''30m'', 3), (''1h'', 3), (''2h'', 3), (''3h'', 3),
    (''4h'', 3), (''5h'', 3), (''6h'', 3), (''12h'', 3), (''24h'', 3)]"
  by (simp add: processEvents_def inputEvents_def bindE_def processRange.simps array_get_def
      processEvent_def timeframeBoundaries_sorted timeframes_def initStats_def emptyPeriod_def
      updatePeriod_def real_ops_def example_event_def Let_def timeframeStats_def)

section \<open>Rounding to doubles: results\<close>

lemma bexp_bounds: "0 < x \<Longrightarrow> 2 powi bexp x \<le> x \<and> x < 2 powi (bexp x + 1)"
proof (induction x rule: bexp.induct)
  case (1 x)
  show ?case
  proof (cases "2 \<le> x")
    case True
    with "1.prems" "1.IH"(1) have ih: "2 powi bexp (x / 2) \<le> x / 2 \<and> x / 2 < 2 powi (bexp (x / 2) + 1)"
      by simp
    have b: "bexp x = bexp (x / 2) + 1"
      using True "1.prems" by (subst bexp.simps) simp
    from ih show ?thesis
      unfolding b by (simp add: power_int_add)
  next
    case False
    show ?thesis
    proof (cases "x < 1")
      case True
      with False "1.prems" "1.IH"(2) have ih:
        "2 powi bexp (x * 2) \<le> x * 2 \<and> x * 2 < 2 powi (bexp (x * 2) + 1)"
        by simp
      have b: "bexp x = bexp (x * 2) - 1"
        using True False "1.prems" by (subst bexp.simps) simp
      from ih show ?thesis
        unfolding b by (simp add: power_int_diff power_int_add)
    next
      case f2: False
      have b: "bexp x = 0"
        using f2 False "1.prems" by (subst bexp.simps) simp
      from f2 False show ?thesis
        unfolding b by simp
    qed
  qed
qed

lemma powi2_mono: "i \<le> j \<Longrightarrow> (2::real) powi i \<le> 2 powi j"
  by (simp add: power_int_increasing)

lemma bexp_unique:
  assumes "2 powi k \<le> x" and "x < 2 powi (k + 1)"
  shows "bexp x = k"
proof -
  have "(0::real) < 2 powi k" by simp
  with assms have p: "0 < x" by linarith
  note b = bexp_bounds [OF p]
  show ?thesis
  proof (rule ccontr)
    assume "bexp x \<noteq> k"
    then consider "bexp x + 1 \<le> k" | "k + 1 \<le> bexp x" by linarith
    then show False
    proof cases
      case 1
      from powi2_mono [OF 1] b assms show False by linarith
    next
      case 2
      from powi2_mono [OF 2] b assms show False by linarith
    qed
  qed
qed

lemma bexp_mono: "0 < x \<Longrightarrow> x \<le> y \<Longrightarrow> bexp x \<le> bexp y"
proof (rule ccontr)
  assume p: "0 < x" and le: "x \<le> y" and "\<not> bexp x \<le> bexp y"
  then have "bexp y + 1 \<le> bexp x" by simp
  from powi2_mono [OF this] bexp_bounds [OF p] bexp_bounds [of y] p le show False
    by linarith
qed

lemma bexp_scale: "0 < x \<Longrightarrow> bexp (x * 2 powi j) = bexp x + j"
proof (rule bexp_unique)
  assume p: "0 < x"
  note b = bexp_bounds [OF p]
  have "2 powi (bexp x + j) = 2 powi bexp x * (2::real) powi j"
    by (simp add: power_int_add)
  also have "\<dots> \<le> x * 2 powi j" using b by simp
  finally show "2 powi (bexp x + j) \<le> x * 2 powi j" .
  have "x * 2 powi j < 2 powi (bexp x + 1) * (2::real) powi j" using b by simp
  also have "\<dots> = 2 powi (bexp x + j + 1)"
    by (simp add: power_int_add)
  finally show "x * 2 powi j < 2 powi (bexp x + j + 1)" .
qed

lemma rne_int: "rne (of_int k) = k"
  by (simp add: rne_def)

lemma rne_mono: "x \<le> y \<Longrightarrow> rne x \<le> rne y"
proof -
  assume le: "x \<le> y"
  then have f: "\<lfloor>x\<rfloor> \<le> \<lfloor>y\<rfloor>" by (rule floor_mono)
  have x: "\<lfloor>x\<rfloor> \<le> rne x \<and> rne x \<le> \<lfloor>x\<rfloor> + 1" by (simp add: rne_def Let_def)
  have y: "\<lfloor>y\<rfloor> \<le> rne y \<and> rne y \<le> \<lfloor>y\<rfloor> + 1" by (simp add: rne_def Let_def)
  show ?thesis
  proof (cases "\<lfloor>x\<rfloor> = \<lfloor>y\<rfloor>")
    case False
    with f x y show ?thesis by linarith
  next
    case True
    with le show ?thesis
      by (auto simp add: rne_def Let_def)
  qed
qed

lemma rne_ge: "of_int a \<le> x \<Longrightarrow> a \<le> rne x"
  using rne_mono [of "of_int a" x] by (simp add: rne_int)

lemma rne_le: "x \<le> of_int b \<Longrightarrow> rne x \<le> b"
  using rne_mono [of x "of_int b"] by (simp add: rne_int)

lemma round64_zero: "round64 0 = 0"
  by (simp add: round64_def rne_def)

lemma round64_exact:
  assumes "x = of_int k * 2 powi e" and "ulp_exp x \<le> e"
  shows "round64 x = x"
proof -
  define u where "u = ulp_exp x"
  from assms(2) obtain n :: nat where n: "e = u + int n"
    unfolding u_def by (metis zle_iff_zadd)
  have "x / 2 powi u = of_int k * 2 powi (int n)"
    unfolding assms(1) n by (simp add: power_int_add)
  also have "\<dots> = of_int (k * 2 ^ n)" by simp
  finally have "rne (x / 2 powi u) = k * 2 ^ n" by (simp only: rne_int)
  then have "round64 x = of_int (k * 2 ^ n) * 2 powi u"
    by (simp add: round64_def u_def)
  also have "\<dots> = x"
    unfolding assms(1) n by (simp add: power_int_add)
  finally show ?thesis .
qed

lemma ulp_exp_ge: "- 1074 \<le> ulp_exp x"
  by (simp add: ulp_exp_def)

lemma bexp_less: "0 < x \<Longrightarrow> x < 2 powi j \<Longrightarrow> bexp x < j"
proof (rule ccontr)
  assume p: "0 < x" and "x < 2 powi j" and "\<not> bexp x < j"
  then have "j \<le> bexp x" by simp
  from powi2_mono [OF this] bexp_bounds [OF p] \<open>x < 2 powi j\<close> show False by linarith
qed

lemma bexp_ge: "2 powi j \<le> x \<Longrightarrow> j \<le> bexp x"
proof (rule ccontr)
  assume a: "2 powi j \<le> x" and "\<not> j \<le> bexp x"
  then have "bexp x + 1 \<le> j" by simp
  have "(0::real) < 2 powi j" by simp
  with a have p: "0 < x" by linarith
  from powi2_mono [OF \<open>bexp x + 1 \<le> j\<close>] bexp_bounds [OF p] a show False by linarith
qed

text \<open>The quotient that is rounded lies below 2^53.\<close>

lemma quotient_less:
  assumes "0 \<le> x"
  shows "x / 2 powi ulp_exp x < 2 ^ 53"
proof (cases "x = 0")
  case True
  then show ?thesis by simp
next
  case False
  with assms have p: "0 < x" by simp
  have "x < 2 powi (bexp x + 1)" using bexp_bounds [OF p] by simp
  also have "\<dots> \<le> 2 powi (ulp_exp x + 53)"
    using p by (intro powi2_mono) (simp add: ulp_exp_def)
  also have "\<dots> = 2 ^ 53 * 2 powi ulp_exp x"
    by (simp add: power_int_add)
  finally have "x < 2 ^ 53 * 2 powi ulp_exp x" .
  then show ?thesis
    by (simp add: pos_divide_less_eq)
qed

lemma round64_nonneg: "0 \<le> x \<Longrightarrow> 0 \<le> round64 x"
proof -
  assume "0 \<le> x"
  then have "of_int 0 \<le> x / 2 powi ulp_exp x" by simp
  from rne_ge [OF this] show ?thesis
    by (simp add: round64_def)
qed

lemma round64_mono:
  assumes "0 \<le> x" and "x \<le> y"
  shows "round64 x \<le> round64 y"
proof (cases "x = 0")
  case True
  with assms round64_nonneg [of y] show ?thesis by (simp add: round64_zero)
next
  case False
  with assms have px: "0 < x" and py: "0 < y" by simp_all
  define ex where "ex = ulp_exp x"
  define ey where "ey = ulp_exp y"
  have le: "ex \<le> ey"
    using bexp_mono [OF px assms(2)] px py by (simp add: ex_def ey_def ulp_exp_def)
  show ?thesis
  proof (cases "ex = ey")
    case True
    have "x / 2 powi ey \<le> y / 2 powi ey"
      using assms(2) by (simp add: divide_right_mono)
    from rne_mono [OF this] show ?thesis
      unfolding round64_def ex_def [symmetric] ey_def [symmetric] True
      by (simp add: mult_right_mono)
  next
    case False
    with le have lt: "ex + 1 \<le> ey" by simp
    have "- 1074 \<le> ex" unfolding ex_def by (rule ulp_exp_ge)
    with lt have "bexp y - 52 = ey" "- 1022 < bexp y"
      using py by (simp_all add: ey_def ulp_exp_def max_def split: if_splits)
    then have bey: "bexp y = ey + 52" by simp
    have "2 powi (ey + 52) \<le> y"
      using bexp_bounds [OF py] by (simp add: bey)
    then have "2 ^ 52 * 2 powi ey \<le> y" by (simp add: power_int_add mult.commute)
    then have "of_int (2 ^ 52) \<le> y / 2 powi ey"
      by (simp add: pos_le_divide_eq)
    from rne_ge [OF this] have "(2 ^ 52 :: real) \<le> of_int (rne (y / 2 powi ey))"
      by (metis of_int_le_iff of_int_numeral of_int_power)
    then have "2 ^ 52 * 2 powi ey \<le> round64 y"
      unfolding round64_def ey_def [symmetric]
      by (intro mult_right_mono) simp_all
    moreover have "x / 2 powi ex \<le> of_int (2 ^ 53)"
      using quotient_less [OF assms(1)] by (simp add: ex_def)
    from rne_le [OF this] have "of_int (rne (x / 2 powi ex)) \<le> (2 ^ 53 :: real)"
      by (metis of_int_le_iff of_int_numeral of_int_power)
    then have "round64 x \<le> 2 ^ 53 * 2 powi ex"
      unfolding round64_def ex_def [symmetric]
      by (intro mult_right_mono) simp_all
    moreover have "2 ^ 53 * (2::real) powi ex = 2 ^ 52 * 2 powi (ex + 1)"
      by (simp add: power_int_add)
    moreover have "(2::real) powi (ex + 1) \<le> 2 powi ey"
      using lt by (rule powi2_mono)
    ultimately have "round64 x \<le> 2 ^ 52 * 2 powi (ex + 1)"
      and "2 ^ 52 * (2::real) powi (ex + 1) \<le> 2 ^ 52 * 2 powi ey"
      and "2 ^ 52 * 2 powi ey \<le> round64 y"
      by simp_all
    then show ?thesis by linarith
  qed
qed

lemma round64_dyadic:
  assumes "x = of_int k * 2 powi e" and "\<bar>k\<bar> < 2 ^ 53" and "- 1074 \<le> e"
  shows "round64 x = x"
proof (cases "k = 0")
  case True
  with assms(1) show ?thesis by (simp add: round64_zero)
next
  case False
  then have p: "0 < \<bar>real_of_int k\<bar>" by simp
  have ax: "\<bar>x\<bar> = \<bar>of_int k\<bar> * 2 powi e"
    unfolding assms(1) by (simp add: abs_mult)
  have "\<bar>real_of_int k\<bar> < 2 powi 53"
    using assms(2) by (metis of_int_abs of_int_less_iff of_int_numeral of_int_power
        power_int_numeral)
  from bexp_less [OF p this] have "bexp \<bar>x\<bar> < 53 + e"
    unfolding ax bexp_scale [OF p] by simp
  with assms(3) have "ulp_exp x \<le> e"
    by (simp add: ulp_exp_def)
  with assms(1) show ?thesis by (rule round64_exact)
qed

lemma round64_int: "\<bar>k\<bar> < 2 ^ 53 \<Longrightarrow> round64 (of_int k) = of_int k"
  using round64_dyadic [of "of_int k" k 0] by simp

lemma round64_idem:
  assumes "0 \<le> x"
  shows "round64 (round64 x) = round64 x"
proof -
  define E where "E = ulp_exp x"
  define k where "k = rne (x / 2 powi E)"
  have v: "round64 x = of_int k * 2 powi E"
    by (simp add: round64_def E_def k_def)
  have E: "- 1074 \<le> E" unfolding E_def by (rule ulp_exp_ge)
  have "of_int 0 \<le> x / 2 powi E" using assms by simp
  from rne_ge [OF this] have k0: "0 \<le> k" by (simp add: k_def)
  have "x / 2 powi E \<le> of_int (2 ^ 53)"
    using quotient_less [OF assms] by (simp add: E_def)
  from rne_le [OF this] have k53: "k \<le> 2 ^ 53" by (simp add: k_def)
  show ?thesis
  proof (cases "k = 2 ^ 53")
    case True
    have "round64 x = of_int (2 ^ 52) * 2 powi (E + 1)"
      unfolding v True by (simp add: power_int_add)
    moreover have "\<bar>2 ^ 52 :: int\<bar> < 2 ^ 53" by simp
    moreover have "- 1074 \<le> E + 1" using E by simp
    ultimately show ?thesis by (rule round64_dyadic)
  next
    case False
    with k0 k53 have "\<bar>k\<bar> < 2 ^ 53" by simp
    with v show ?thesis using E by (rule round64_dyadic)
  qed
qed

lemma round64_scale:
  assumes "round64 b = b" and "0 < b"
  shows "round64 (b * 2 ^ n) = b * 2 ^ n"
proof -
  define E where "E = ulp_exp b"
  define k where "k = rne (b / 2 powi E)"
  have b: "b = of_int k * 2 powi E"
    using assms(1) by (simp add: round64_def E_def k_def)
  have "b * 2 ^ n = of_int k * 2 powi (E + int n)"
    by (subst b) (simp add: power_int_add)
  moreover have "ulp_exp (b * 2 ^ n) \<le> E + int n"
  proof -
    have "bexp \<bar>b * 2 ^ n\<bar> = bexp b + int n"
      using bexp_scale [OF assms(2), of "int n"] assms(2) by (simp add: abs_mult)
    moreover have "\<bar>b\<bar> = b" using assms(2) by simp
    ultimately show ?thesis
      by (simp add: ulp_exp_def E_def max_def)
  qed
  ultimately show ?thesis by (rule round64_exact)
qed

lemma to_double_mono: "0 \<le> x \<Longrightarrow> x \<le> y \<Longrightarrow> dle (to_double x) (to_double y)"
  using round64_mono [of x y] round64_nonneg [of x]
  by (auto simp add: to_double_def Let_def)

lemma to_double_Finite: "0 \<le> x \<Longrightarrow> to_double x = Finite y \<Longrightarrow> y = round64 x \<and> 0 \<le> y \<and> y < 2 ^ 1024"
  using round64_nonneg [of x]
  by (auto simp add: to_double_def Let_def split: if_splits)

lemma round64_at:
  assumes "2 powi b \<le> \<bar>x\<bar>" and "\<bar>x\<bar> < 2 powi (b + 1)" and "- 1022 \<le> b"
    and "rne (x / 2 powi (b - 52)) = k"
  shows "round64 x = of_int k * 2 powi (b - 52)"
proof -
  from assms(1,2) have "bexp \<bar>x\<bar> = b" by (rule bexp_unique)
  with assms(3) have "ulp_exp x = b - 52" by (simp add: ulp_exp_def)
  with assms(4) show ?thesis by (simp add: round64_def)
qed

section \<open>Streaming transport: results\<close>

lemma distinct_set_add: "distinct rooms \<Longrightarrow> distinct (set_add room rooms)"
  by (simp add: set_add_def)

lemma distinct_set_delete: "distinct rooms \<Longrightarrow> distinct (set_delete room rooms)"
  by (simp add: set_delete_def distinct_removeAll)

lemma rooms_connect: "subscribedRooms (fst (connect s)) = subscribedRooms s"
  by (simp add: connect_def connectWithWorker_def)

lemma rooms_reconnect: "subscribedRooms (fst (reconnect s r)) = subscribedRooms s"
  by (simp add: reconnect_def Let_def)

lemma rooms_connect_rejected: "subscribedRooms (fst (connect_rejected s r)) = subscribedRooms s"
proof -
  obtain s2 out where r: "reconnect (s\<lparr>isConnecting := False\<rparr>) r = (s2, out)"
    by (cases "reconnect (s\<lparr>isConnecting := False\<rparr>) r")
  with rooms_reconnect [of "s\<lparr>isConnecting := False\<rparr>" r]
  have "subscribedRooms s2 = subscribedRooms s" by simp
  with r show ?thesis by (simp add: connect_rejected_def Let_def)
qed

lemma rooms_socket_onclose: "subscribedRooms (fst (socket_onclose s ch r)) = subscribedRooms s"
proof -
  define s1 where "s1 = (case ch of Main \<Rightarrow> s\<lparr>socket := None\<rparr>
                | Transaction \<Rightarrow> s\<lparr>transactionSocket := None\<rparr>)"
  have s1: "subscribedRooms s1 = subscribedRooms s"
    by (cases ch) (simp_all add: s1_def)
  obtain s2 out where r: "reconnect s1 r = (s2, out)"
    by (cases "reconnect s1 r")
  with rooms_reconnect [of s1 r] s1 have "subscribedRooms s2 = subscribedRooms s" by simp
  with r s1 show ?thesis
    by (simp add: socket_onclose_def Let_def s1_def [symmetric])
qed

lemma reachable_distinct: "reachable s \<Longrightarrow> distinct (subscribedRooms s)"
proof (induction rule: reachable.induct)
  case (init config)
  then show ?case by (simp add: constructor_def)
next
  case (step_connect s)
  then show ?case by (simp add: rooms_connect)
next
  case (step_resolved s)
  then show ?case by (simp add: connect_resolved_def)
next
  case (step_rejected s r)
  then show ?case by (simp add: rooms_connect_rejected)
next
  case (step_timer s i)
  then show ?case by (simp add: timer_fired_def rooms_connect)
next
  case (step_onopen s ch)
  then show ?case by (cases ch) (simp_all add: socket_onopen_def Let_def)
next
  case (step_state s ch rs)
  then show ?case by (cases ch) (simp_all add: socket_state_def)
next
  case (step_onclose s ch r)
  then show ?case by (simp add: rooms_socket_onclose)
next
  case (step_onmessage s event)
  then show ?case
    by (cases event) (simp_all add: onmessage_def Let_def)
next
  case (step_disconnect s)
  then show ?case by (simp add: disconnect_def Let_def split: prod.splits if_splits)
next
  case (step_subscribe s room)
  then show ?case
    by (simp add: subscribe_def Let_def rooms_connect distinct_set_add)
next
  case (step_unsubscribe s room)
  then show ?case
    by (simp add: unsubscribe_def Let_def distinct_set_delete)
qed


lemma count_list_map_inj:
  "distinct xs \<Longrightarrow> inj f \<Longrightarrow> count_list (map f xs) (f x) = (if x \<in> set xs then 1 else 0)"
  by (induction xs) (auto simp: inj_def)

lemma count_list_map_none:
  "y \<notin> f ` set xs \<Longrightarrow> count_list (map f xs) y = 0"
  by (induction xs) auto

lemma inj_join: "inj (\<lambda>room. Send (room_channel room) (Join room))"
  by (simp add: inj_def)

text \<open>
  C2. In every reachable state \<open>resubscribeToRooms\<close> sends nothing unless both the main
  and the transaction socket are open; when both are open it sends the join frames of all
  tracked rooms, in the order of the set, each on the channel the routing rule gives
  (a room key that contains \<open>transaction\<close> goes to the transaction channel, any other to
  the main channel), so that every tracked room gets exactly one join frame on its channel
  and no other join frame is sent. The effects of \<open>onopen\<close> are those of
  \<open>resubscribeToRooms\<close> in the state it leaves.
\<close>

theorem resubscribe_all_or_nothing:
  "reachable s \<longrightarrow>
     (socket s = Some OPEN \<and> transactionSocket s = Some OPEN \<longrightarrow>
        resubscribeToRooms s =
          map (\<lambda>room. Send (if str_includes room ''transaction'' then Transaction else Main)
                 (Join room)) (subscribedRooms s) \<and>
        count_list (resubscribeToRooms s) (Send ch (Join room)) =
          (if room \<in> set (subscribedRooms s) \<and> ch = room_channel room then 1 else 0)) \<and>
     (\<not> (socket s = Some OPEN \<and> transactionSocket s = Some OPEN) \<longrightarrow>
        resubscribeToRooms s = []) \<and>
     snd (socket_onopen s c) = resubscribeToRooms (fst (socket_onopen s c))"
proof (intro impI conjI)
  assume r: "reachable s" and o: "socket s = Some OPEN \<and> transactionSocket s = Some OPEN"
  from o show "resubscribeToRooms s =
      map (\<lambda>room. Send (if str_includes room ''transaction'' then Transaction else Main)
             (Join room)) (subscribedRooms s)"
    by (simp add: resubscribeToRooms_def room_channel_def)
  let ?f = "\<lambda>room. Send (room_channel room) (Join room)"
  from o have eq: "resubscribeToRooms s = map ?f (subscribedRooms s)"
    by (simp add: resubscribeToRooms_def)
  show "count_list (resubscribeToRooms s) (Send ch (Join room)) =
      (if room \<in> set (subscribedRooms s) \<and> ch = room_channel room then 1 else 0)"
  proof (cases "ch = room_channel room")
    case True
    with count_list_map_inj [OF reachable_distinct [OF r] inj_join, of room] show ?thesis
      by (simp add: eq)
  next
    case False
    then have "Send ch (Join room) \<notin> ?f ` set (subscribedRooms s)" by auto
    from count_list_map_none [OF this] False show ?thesis by (simp add: eq)
  qed
next
  assume "\<not> (socket s = Some OPEN \<and> transactionSocket s = Some OPEN)"
  then show "resubscribeToRooms s = []"
    by (auto simp add: resubscribeToRooms_def)
next
  show "snd (socket_onopen s c) = resubscribeToRooms (fst (socket_onopen s c))"
    by (simp add: socket_onopen_def Let_def)
qed


lemma reachable_connected: "reachable connected_state"
  unfolding connected_state_def by (intro reachable.intros)

lemma connected_state_eq:
  "connected_state =
     \<lparr>wsUrl = ''wss://datastream'', socket = Some OPEN, transactionSocket = Some OPEN,
      reconnectAttempts = 0, reconnectDelay = Finite 2500, reconnectDelayMax = Finite 4500,
      randomizationFactor = Finite (1 / 2), subscribedRooms = [], transactions = {},
      autoReconnect = True, isConnecting = False, useWorker = False, worker = False,
      timers = []\<rparr>"
  by (simp add: connected_state_def connect_resolved_def socket_onopen_def connect_def
      constructor_def default_config_def or_default_def resubscribeToRooms_def Let_def)

lemma subscribed_state_eq: "subscribed_state = connected_state\<lparr>subscribedRooms := [''price:X'', ''transaction:T'']\<rparr>"
  by (simp add: subscribed_state_def connected_state_eq subscribe_def Let_def set_add_def channel_socket_def
      room_channel_def)

theorem resubscribe_all_or_nothing_witness:
  "reachable subscribed_state \<and> socket subscribed_state = Some OPEN \<and> transactionSocket subscribed_state = Some OPEN \<and>
   resubscribeToRooms subscribed_state = [Send Main (Join ''price:X''), Send Transaction (Join ''transaction:T'')]"
proof -
  have r: "reachable subscribed_state"
    unfolding subscribed_state_def by (intro reachable.intros reachable_connected)
  have o: "socket subscribed_state = Some OPEN \<and> transactionSocket subscribed_state = Some OPEN"
    by (simp add: subscribed_state_eq connected_state_eq)
  from resubscribe_all_or_nothing [of subscribed_state, THEN mp, OF r] o r show ?thesis
    by (simp add: subscribed_state_eq)
qed


text \<open>
  C8. Without a worker, \<open>unsubscribe(room)\<close> removes the room from the tracked set, which
  leaves the state as it was when the room was not tracked, and it sends a leave frame on
  the room's channel exactly when that channel is open, whether the room was tracked or
  not. For a room that was not tracked the call is therefore not always a no-op.
\<close>

theorem unsubscribe_effect:
  "\<not> (useWorker s \<and> worker s) \<longrightarrow>
     fst (unsubscribe s room) = s\<lparr>subscribedRooms := removeAll room (subscribedRooms s)\<rparr> \<and>
     room \<notin> set (subscribedRooms (fst (unsubscribe s room))) \<and>
     (room \<notin> set (subscribedRooms s) \<longrightarrow> fst (unsubscribe s room) = s) \<and>
     snd (unsubscribe s room) =
       (if channel_socket s (room_channel room) = Some OPEN
        then [Send (room_channel room) (Leave room)] else [])"
  by (cases "room_channel room")
     (auto simp add: unsubscribe_def Let_def set_delete_def channel_socket_def)

theorem unsubscribe_effect_witness:
  "\<not> (useWorker subscribed_state \<and> worker subscribed_state) \<and>
   unsubscribe subscribed_state ''price:X'' =
     (connected_state\<lparr>subscribedRooms := [''transaction:T'']\<rparr>, [Send Main (Leave ''price:X'')])"
  using unsubscribe_effect [of subscribed_state "''price:X''"]
  by (simp add: subscribed_state_eq connected_state_eq channel_socket_def room_channel_def prod_eq_iff)

theorem unsubscribe_untracked_counterexample:
  "''price:X'' \<notin> set (subscribedRooms connected_state) \<and>
   unsubscribe connected_state ''price:X'' = (connected_state, [Send Main (Leave ''price:X'')])"
  by (simp add: connected_state_eq unsubscribe_def Let_def set_delete_def channel_socket_def
      room_channel_def)

lemma to_double_exact:
  assumes "round64 x = x" and "\<bar>x\<bar> < 2 ^ 1024"
  shows "to_double x = Finite x"
proof -
  from assms(2) have "\<not> 2 ^ 1024 \<le> x" and "\<not> x \<le> - (2 ^ 1024)"
    by (simp_all only: abs_less_iff not_le minus_less_iff)
  then show ?thesis
    unfolding to_double_def Let_def assms(1) by (simp only: if_False)
qed

lemma to_double_of_int: "\<bar>k\<bar> < 2 ^ 53 \<Longrightarrow> to_double (of_int k) = Finite (of_int k)"
proof (rule to_double_exact)
  assume k: "\<bar>k\<bar> < 2 ^ 53"
  then show "round64 (of_int k) = of_int k" by (rule round64_int)
  from k have "\<bar>real_of_int k\<bar> < 2 ^ 53"
    by (metis of_int_abs of_int_less_iff of_int_numeral of_int_power)
  moreover have "(2::real) ^ 53 \<le> 2 ^ 1024" by (rule power_increasing) simp_all
  ultimately show "\<bar>real_of_int k\<bar> < 2 ^ 1024" by linarith
qed

lemma to_double_nonneg_cases:
  assumes "0 \<le> y"
  shows "to_double y = PosInf \<or> (to_double y = Finite (round64 y) \<and> round64 y < 2 ^ 1024)"
  using round64_nonneg [OF assms] by (auto simp add: to_double_def Let_def)

lemma to_double_PosInf: "to_double y = PosInf \<Longrightarrow> 2 ^ 1024 \<le> round64 y"
  unfolding to_double_def Let_def by (simp only: double.distinct split: if_splits)

lemma to_double_values:
  "to_double 0 = Finite 0"
  "to_double 1125 = Finite 1125"
  "to_double 1250 = Finite 1250"
  "to_double 2250 = Finite 2250"
  "to_double 2500 = Finite 2500"
  "to_double 3333 = Finite 3333"
  "to_double 4500 = Finite 4500"
  "to_double 5000 = Finite 5000"
  "to_double 5625 = Finite 5625"
  "to_double 6750 = Finite 6750"
  using to_double_of_int [of 0] to_double_of_int [of 1125] to_double_of_int [of 1250]
    to_double_of_int [of 2250] to_double_of_int [of 2500] to_double_of_int [of 3333]
    to_double_of_int [of 4500] to_double_of_int [of 5000] to_double_of_int [of 5625]
    to_double_of_int [of 6750]
  by simp_all

lemma backoff_state_eq:
  "backoff_state = connected_state\<lparr>socket := None, timers := [Finite 2500]\<rparr>"
  by (simp add: backoff_state_def connected_state_eq socket_onclose_def reconnect_def
      backoffDelay_def backoffJitter_def dpow2_def to_double_values Let_def)

lemma double_pos:
  assumes "to_double b = Finite b" and "0 < b"
  shows "round64 b = b \<and> b < 2 ^ 1024"
  using to_double_Finite [of b b] assms by simp

lemma backoffDelay_value:
  assumes b: "reconnectDelay s = Finite b" "to_double b = Finite b" "0 < b"
    and m: "reconnectDelayMax s = Finite m" "to_double m = Finite m" "0 < m"
  shows "backoffDelay s =
           Finite (if reconnectAttempts s < 1024 then min (b * 2 ^ reconnectAttempts s) m else m)"
proof (cases "reconnectAttempts s < 1024")
  case True
  define n where "n = reconnectAttempts s"
  from double_pos [OF b(2,3)] have rb: "round64 b = b" by simp
  from double_pos [OF m(2,3)] have m1: "m < 2 ^ 1024" by simp
  have r: "round64 (b * 2 ^ n) = b * 2 ^ n" using rb b(3) by (rule round64_scale)
  have p: "0 \<le> b * 2 ^ n" using b(3) by simp
  from to_double_nonneg_cases [OF p]
  have "dmin (to_double (b * 2 ^ n)) (Finite m) = Finite (min (b * 2 ^ n) m)"
  proof
    assume i: "to_double (b * 2 ^ n) = PosInf"
    from to_double_PosInf [OF this] have "2 ^ 1024 \<le> b * 2 ^ n"
      by (simp only: r)
    with m1 have "min (b * 2 ^ n) m = m" by linarith
    with i show ?thesis by simp
  next
    assume "to_double (b * 2 ^ n) = Finite (round64 (b * 2 ^ n)) \<and> round64 (b * 2 ^ n) < 2 ^ 1024"
    then show ?thesis by (simp add: r)
  qed
  with True b(1) m(1) show ?thesis
    by (simp add: backoffDelay_def dpow2_def n_def)
next
  case False
  with b m show ?thesis
    by (simp add: backoffDelay_def dpow2_def)
qed

lemma backoffDelay_exact:
  assumes b: "reconnectDelay s = Finite b" "to_double b = Finite b" "1 \<le> b"
    and m: "reconnectDelayMax s = Finite m" "to_double m = Finite m" "0 < m"
  shows "backoffDelay s = Finite (min (b * 2 ^ reconnectAttempts s) m)"
proof (cases "reconnectAttempts s < 1024")
  case True
  with backoffDelay_value [OF b(1,2) _ m] b(3) show ?thesis by simp
next
  case False
  from double_pos [OF m(2,3)] have m1: "m < 2 ^ 1024" by simp
  from False have "(2::real) ^ 1024 \<le> 2 ^ reconnectAttempts s"
    by (intro power_increasing) simp_all
  moreover have "1 * (2::real) ^ reconnectAttempts s \<le> b * 2 ^ reconnectAttempts s"
    using b(3) by (intro mult_right_mono) simp_all
  ultimately have "m \<le> b * 2 ^ reconnectAttempts s" using m1 by linarith
  then have "min (b * 2 ^ reconnectAttempts s) m = m" by linarith
  with backoffDelay_value [OF b(1,2) _ m] b(3) False show ?thesis by simp
qed

lemma backoffDelay_double:
  assumes b: "reconnectDelay s = Finite b" "to_double b = Finite b" "0 < b"
    and m: "reconnectDelayMax s = Finite m" "to_double m = Finite m" "0 < m"
  shows "\<exists>d. backoffDelay s = Finite d \<and> 0 < d \<and> to_double d = Finite d"
proof -
  define n where "n = reconnectAttempts s"
  from double_pos [OF b(2,3)] have rb: "round64 b = b" by simp
  from double_pos [OF m(2,3)] have m1: "m < 2 ^ 1024" by simp
  have r: "round64 (b * 2 ^ n) = b * 2 ^ n" using rb b(3) by (rule round64_scale)
  define d where "d = (if n < 1024 then min (b * 2 ^ n) m else m)"
  have dv: "backoffDelay s = Finite d"
    using backoffDelay_value [OF b m] by (simp add: d_def n_def)
  have p: "0 < d" using b(3) m(3) by (simp add: d_def)
  have "d = m \<or> (d = b * 2 ^ n \<and> d \<le> m)" by (auto simp add: d_def min_def)
  then have "to_double d = Finite d"
  proof
    assume "d = m"
    with m(2) show ?thesis by simp
  next
    assume a: "d = b * 2 ^ n \<and> d \<le> m"
    with r have "round64 d = d" by simp
    moreover from a m1 p have "\<bar>d\<bar> < 2 ^ 1024" by linarith
    ultimately show ?thesis by (rule to_double_exact)
  qed
  with dv p show ?thesis by blast
qed

lemma jitter_bounds:
  assumes d: "0 < d" "to_double d = Finite d"
    and j: "to_double (d * f) \<noteq> PosInf" "0 \<le> f"
    and x: "0 \<le> x" "x < 1"
  shows "dle (Finite d) (dadd (Finite d) (dmul (Finite x) (to_double (d * f)))) \<and>
         dle (dadd (Finite d) (dmul (Finite x) (to_double (d * f))))
             (dadd (Finite d) (to_double (d * f)))"
proof -
  define j where "j = round64 (d * f)"
  have df: "0 \<le> d * f" using d(1) j(2) by simp
  from to_double_nonneg_cases [OF df] j(1)
  have tj: "to_double (d * f) = Finite j" and j1: "j < 2 ^ 1024" by (simp_all add: j_def)
  have j0: "0 \<le> j" unfolding j_def using df by (rule round64_nonneg)
  have rj: "round64 j = j" unfolding j_def using df by (rule round64_idem)
  from j0 j1 have "\<bar>j\<bar> < 2 ^ 1024" by linarith
  with rj have dj: "to_double j = Finite j" by (rule to_double_exact)
  have xj0: "0 \<le> x * j" using x(1) j0 by simp
  have "x * j \<le> 1 * j" using x(2) j0 by (intro mult_right_mono) simp_all
  then have xj1: "x * j \<le> j" by simp
  define k where "k = round64 (x * j)"
  have k0: "0 \<le> k" unfolding k_def using xj0 by (rule round64_nonneg)
  have "k \<le> round64 j" unfolding k_def using xj0 xj1 by (rule round64_mono)
  with rj have kj: "k \<le> j" by simp
  from to_double_nonneg_cases [OF xj0] have tk: "to_double (x * j) = Finite k"
  proof
    assume "to_double (x * j) = PosInf"
    from to_double_PosInf [OF this] have "2 ^ 1024 \<le> k"
      by (simp only: k_def)
    with kj j1 show ?thesis by linarith
  next
    assume "to_double (x * j) = Finite (round64 (x * j)) \<and> round64 (x * j) < 2 ^ 1024"
    then show ?thesis by (simp add: k_def)
  qed
  have lo: "dle (to_double d) (to_double (d + k))"
    using d(1) k0 by (intro to_double_mono) simp_all
  have hi: "dle (to_double (d + k)) (to_double (d + j))"
    using d(1) k0 kj by (intro to_double_mono) simp_all
  from lo hi show ?thesis
    by (simp add: tj tk d(2))
qed

text \<open>
  C6. Let the base delay \<open>b\<close> and the maximum \<open>m\<close> be positive doubles, the randomization
  factor \<open>f\<close> non-negative, the jitter \<open>delay * f\<close> not overflowing to infinity, and the
  random draw \<open>x\<close> in \<open>[0, 1)\<close>. Then the delay before jitter at attempt count \<open>n\<close> is
  \<open>min (b * 2^n) m\<close> when \<open>n < 1024\<close> or \<open>1 \<le> b\<close>, and \<open>m\<close> otherwise (from \<open>n = 1024\<close> on
  \<open>Math.pow(2, n)\<close> is infinite). \<open>reconnect\<close> emits \<open>reconnecting\<close> with the attempt count
  and calls \<open>setTimeout\<close> once, with the wait \<open>delay + x * jitter\<close> computed in doubles as
  its delay argument; that wait is at least the delay and at most the double sum
  \<open>delay + jitter\<close>, where \<open>jitter\<close> is the double product \<open>delay * f\<close>.
\<close>

theorem backoff_delay_bounds:
  "reconnectDelay s = Finite b \<and> to_double b = Finite b \<and> 0 < b \<and>
   reconnectDelayMax s = Finite m \<and> to_double m = Finite m \<and> 0 < m \<and>
   randomizationFactor s = Finite f \<and> 0 \<le> f \<and> backoffJitter s \<noteq> PosInf \<and>
   r = Finite x \<and> 0 \<le> x \<and> x < 1 \<and> autoReconnect s \<longrightarrow>
     backoffDelay s =
       Finite (if reconnectAttempts s < 1024 then min (b * 2 ^ reconnectAttempts s) m else m) \<and>
     (1 \<le> b \<longrightarrow> backoffDelay s = Finite (min (b * 2 ^ reconnectAttempts s) m)) \<and>
     (\<exists>wait. reconnect s r =
               (s\<lparr>timers := timers s @ [wait]\<rparr>,
                [Emit (JStr ''reconnecting'') (Attempt (reconnectAttempts s)), SetTimeout wait]) \<and>
             wait = dadd (backoffDelay s) (dmul r (backoffJitter s)) \<and>
             backoffJitter s = dmul (backoffDelay s) (Finite f) \<and>
             dle (backoffDelay s) wait \<and>
             dle wait (dadd (backoffDelay s) (backoffJitter s)))"
proof (intro impI)
  assume a: "reconnectDelay s = Finite b \<and> to_double b = Finite b \<and> 0 < b \<and>
   reconnectDelayMax s = Finite m \<and> to_double m = Finite m \<and> 0 < m \<and>
   randomizationFactor s = Finite f \<and> 0 \<le> f \<and> backoffJitter s \<noteq> PosInf \<and>
   r = Finite x \<and> 0 \<le> x \<and> x < 1 \<and> autoReconnect s"
  then have b: "reconnectDelay s = Finite b" "to_double b = Finite b" "0 < b"
    and m: "reconnectDelayMax s = Finite m" "to_double m = Finite m" "0 < m"
    by simp_all
  have v: "backoffDelay s =
       Finite (if reconnectAttempts s < 1024 then min (b * 2 ^ reconnectAttempts s) m else m)"
    using b m by (rule backoffDelay_value)
  have e: "1 \<le> b \<longrightarrow> backoffDelay s = Finite (min (b * 2 ^ reconnectAttempts s) m)"
    using backoffDelay_exact [OF b(1,2) _ m] by blast
  from backoffDelay_double [OF b m] obtain d
    where d: "backoffDelay s = Finite d" "0 < d" "to_double d = Finite d" by blast
  from a d(1) have jt: "backoffJitter s = to_double (d * f)"
    by (simp add: backoffJitter_def)
  with a have nj: "to_double (d * f) \<noteq> PosInf" by simp
  from a have f: "0 \<le> f" and x: "0 \<le> x" "x < 1" by simp_all
  note jb = jitter_bounds [OF d(2,3) nj f x]
  have w: "reconnect s r =
      (s\<lparr>timers := timers s @ [dadd (backoffDelay s) (dmul r (backoffJitter s))]\<rparr>,
       [Emit (JStr ''reconnecting'') (Attempt (reconnectAttempts s)),
        SetTimeout (dadd (backoffDelay s) (dmul r (backoffJitter s)))])"
    using a by (simp add: reconnect_def Let_def)
  have j2: "backoffJitter s = dmul (backoffDelay s) (Finite f)"
    using a by (simp add: backoffJitter_def)
  have lo: "dle (backoffDelay s) (dadd (backoffDelay s) (dmul r (backoffJitter s)))"
    using jb a by (simp only: d(1) jt)
  have hi: "dle (dadd (backoffDelay s) (dmul r (backoffJitter s)))
              (dadd (backoffDelay s) (backoffJitter s))"
    using jb a by (simp only: d(1) jt)
  from v e w j2 lo hi show "backoffDelay s =
       Finite (if reconnectAttempts s < 1024 then min (b * 2 ^ reconnectAttempts s) m else m) \<and>
     (1 \<le> b \<longrightarrow> backoffDelay s = Finite (min (b * 2 ^ reconnectAttempts s) m)) \<and>
     (\<exists>wait. reconnect s r =
               (s\<lparr>timers := timers s @ [wait]\<rparr>,
                [Emit (JStr ''reconnecting'') (Attempt (reconnectAttempts s)), SetTimeout wait]) \<and>
             wait = dadd (backoffDelay s) (dmul r (backoffJitter s)) \<and>
             backoffJitter s = dmul (backoffDelay s) (Finite f) \<and>
             dle (backoffDelay s) wait \<and>
             dle wait (dadd (backoffDelay s) (backoffJitter s)))"
    by blast
qed

lemma retry_state_eq:
  "fst (timer_fired backoff_state 0) =
     connected_state\<lparr>socket := None, reconnectAttempts := 1, isConnecting := True\<rparr>"
  by (simp add: backoff_state_eq connected_state_eq timer_fired_def connect_def)

theorem backoff_delay_bounds_witness:
  "reconnectDelay (fst (timer_fired backoff_state 0)) = Finite 2500 \<and>
   to_double 2500 = Finite 2500 \<and> (0::real) < 2500 \<and> (1::real) \<le> 2500 \<and>
   reconnectDelayMax (fst (timer_fired backoff_state 0)) = Finite 4500 \<and>
   to_double 4500 = Finite 4500 \<and> (0::real) < 4500 \<and>
   randomizationFactor (fst (timer_fired backoff_state 0)) = Finite (1 / 2) \<and>
   (0::real) \<le> 1 / 2 \<and> backoffJitter (fst (timer_fired backoff_state 0)) = Finite 2250 \<and>
   (1 / 2 :: real) < 1 \<and> autoReconnect (fst (timer_fired backoff_state 0)) \<and>
   reconnectAttempts (fst (timer_fired backoff_state 0)) = 1 \<and>
   backoffDelay (fst (timer_fired backoff_state 0)) = Finite 4500 \<and>
   snd (reconnect (fst (timer_fired backoff_state 0)) (Finite (1 / 2))) =
     [Emit (JStr ''reconnecting'') (Attempt 1), SetTimeout (Finite 5625)] \<and>
   dadd (Finite 4500) (Finite 2250) = Finite 6750"
  using backoff_delay_bounds
    [of "fst (timer_fired backoff_state 0)" 2500 4500 "1 / 2" "Finite (1 / 2)" "1 / 2"]
  by (simp add: retry_state_eq connected_state_eq backoffDelay_def backoffJitter_def
      reconnect_def dpow2_def Let_def to_double_values)

lemma rounding_state_eq:
  "constructor rounding_config =
     \<lparr>wsUrl = ''wss://datastream'', socket = None, transactionSocket = None,
      reconnectAttempts = 0, reconnectDelay = Finite 3333, reconnectDelayMax = Finite 4500,
      randomizationFactor = Finite factor_example, subscribedRooms = [], transactions = {},
      autoReconnect = True, isConnecting = False, useWorker = False, worker = False,
      timers = []\<rparr>"
  by (simp add: constructor_def rounding_config_def default_config_def or_default_def
      factor_example_def)

lemma negative_max_state_eq:
  "constructor negative_max_config =
     \<lparr>wsUrl = ''wss://datastream'', socket = None, transactionSocket = None,
      reconnectAttempts = 0, reconnectDelay = Finite 2500, reconnectDelayMax = Finite (- 1),
      randomizationFactor = Finite (1 / 2), subscribedRooms = [], transactions = {},
      autoReconnect = True, isConnecting = False, useWorker = False, worker = False,
      timers = []\<rparr>"
  by (simp add: constructor_def negative_max_config_def default_config_def or_default_def)

lemma to_double_at:
  assumes "2 powi b \<le> \<bar>x\<bar>" and "\<bar>x\<bar> < 2 powi (b + 1)" and "- 1022 \<le> b"
    and "rne (x / 2 powi (b - 52)) = k"
    and "\<bar>of_int k * 2 powi (b - 52)\<bar> < (2::real) ^ 1024"
  shows "to_double x = Finite (of_int k * 2 powi (b - 52))"
proof -
  have r: "round64 x = of_int k * 2 powi (b - 52)" using assms(1-4) by (rule round64_at)
  from assms(5) have "\<not> (2::real) ^ 1024 \<le> of_int k * 2 powi (b - 52)"
    and "\<not> of_int k * 2 powi (b - 52) \<le> - (2 ^ 1024 :: real)"
    by (simp_all only: abs_less_iff not_le minus_less_iff)
  then show ?thesis
    unfolding to_double_def Let_def r by (simp only: if_False)
qed

lemma rounding_jitter:
  "to_double (3333 * factor_example) = Finite (6564358443775911 / 2 ^ 42)"
  using to_double_at [of 10 "3333 * factor_example" 6564358443775911]
  by (simp add: factor_example_def rne_def Let_def)

lemma rounding_draw:
  "to_double ((1 - 1 / 2 ^ 53) * (6564358443775911 / 2 ^ 42)) = Finite (6564358443775910 / 2 ^ 42)"
  using to_double_at [of 10 "(1 - 1 / 2 ^ 53) * (6564358443775911 / 2 ^ 42)" 6564358443775910]
  by (simp add: rne_def Let_def)

lemma rounding_wait:
  "to_double (3333 + 6564358443775910 / 2 ^ 42) = Finite (2652880933160693 / 2 ^ 39)"
  using to_double_at [of 12 "3333 + 6564358443775910 / 2 ^ 42" 5305761866321386]
  by (simp add: rne_def Let_def)

lemma rounding_one_plus:
  "to_double (1 + factor_example) = Finite (6520372218557574 / 2 ^ 52)"
  using to_double_at [of 0 "1 + factor_example" 6520372218557574]
  by (simp add: factor_example_def rne_def Let_def)

lemma rounding_bound:
  "to_double (3333 * (6520372218557574 / 2 ^ 52)) = Finite (5305761866321385 / 2 ^ 40)"
  using to_double_at [of 12 "3333 * (6520372218557574 / 2 ^ 52)" 5305761866321385]
  by (simp add: rne_def Let_def)

lemma negative_values:
  "to_double (- 1 * (1 / 2)) = Finite (- 1 / 2)"
  "to_double (1 / 2 * (- 1 / 2)) = Finite (- 1 / 4)"
  "to_double (- 1 + - 1 / 4) = Finite (- 5 / 4)"
  using to_double_exact [OF round64_dyadic [of "- 1 / 2" "- 1" "- 1"]]
    to_double_exact [OF round64_dyadic [of "- 1 / 4" "- 1" "- 2"]]
    to_double_exact [OF round64_dyadic [of "- 5 / 4" "- 5" "- 2"]]
  by simp_all

theorem backoff_interval_counterexample:
  "backoffDelay (constructor rounding_config) = Finite 3333 \<and>
   randomizationFactor (constructor rounding_config) = Finite factor_example \<and>
   snd (reconnect (constructor rounding_config) (Finite (1 - 1 / 2 ^ 53))) =
     [Emit (JStr ''reconnecting'') (Attempt 0),
      SetTimeout (Finite (2652880933160693 / 2 ^ 39))] \<and>
   3333 * (1 + factor_example) < 2652880933160693 / 2 ^ 39 \<and>
   dmul (Finite 3333) (dadd (Finite 1) (Finite factor_example)) =
     Finite (5305761866321385 / 2 ^ 40) \<and>
   (5305761866321385 / 2 ^ 40 :: real) < 2652880933160693 / 2 ^ 39 \<and>
   backoffDelay (constructor negative_max_config) = Finite (- 1) \<and>
   randomizationFactor (constructor negative_max_config) = Finite (1 / 2) \<and>
   snd (reconnect (constructor negative_max_config) (Finite (1 / 2))) =
     [Emit (JStr ''reconnecting'') (Attempt 0), SetTimeout (Finite (- 5 / 4))]"
proof -
  have d: "backoffDelay (constructor rounding_config) = Finite 3333"
    by (simp add: rounding_state_eq backoffDelay_def dpow2_def to_double_values)
  have j: "backoffJitter (constructor rounding_config) = Finite (6564358443775911 / 2 ^ 42)"
    unfolding backoffJitter_def d using rounding_jitter by (simp add: rounding_state_eq)
  have x: "dmul (Finite (1 - 1 / 2 ^ 53)) (Finite (6564358443775911 / 2 ^ 42)) =
      Finite (6564358443775910 / 2 ^ 42)"
    using rounding_draw by simp
  have w: "dadd (Finite 3333) (Finite (6564358443775910 / 2 ^ 42)) =
      Finite (2652880933160693 / 2 ^ 39)"
    using rounding_wait by simp
  have r: "snd (reconnect (constructor rounding_config) (Finite (1 - 1 / 2 ^ 53))) =
     [Emit (JStr ''reconnecting'') (Attempt 0),
      SetTimeout (Finite (2652880933160693 / 2 ^ 39))]"
    unfolding reconnect_def Let_def d j x w by (simp add: rounding_state_eq)
  have f: "randomizationFactor (constructor rounding_config) = Finite factor_example"
    by (simp add: rounding_state_eq)
  have lt: "3333 * (1 + factor_example) < 2652880933160693 / 2 ^ 39"
    by (simp add: factor_example_def)
  have b: "dmul (Finite 3333) (dadd (Finite 1) (Finite factor_example)) =
     Finite (5305761866321385 / 2 ^ 40)"
    using rounding_one_plus rounding_bound by simp
  have lt2: "(5305761866321385 / 2 ^ 40 :: real) < 2652880933160693 / 2 ^ 39"
    by simp
  have nd: "backoffDelay (constructor negative_max_config) = Finite (- 1)"
    by (simp add: negative_max_state_eq backoffDelay_def dpow2_def to_double_values)
  have nf: "randomizationFactor (constructor negative_max_config) = Finite (1 / 2)"
    by (simp add: negative_max_state_eq)
  have nr: "snd (reconnect (constructor negative_max_config) (Finite (1 / 2))) =
     [Emit (JStr ''reconnecting'') (Attempt 0), SetTimeout (Finite (- 5 / 4))]"
    unfolding reconnect_def Let_def backoffJitter_def nd nf using negative_values
    by (simp add: negative_max_state_eq)
  from d f r lt b lt2 nd nf nr show ?thesis by (intro conjI)
qed






lemma prop_string_not_nullish: "get_prop v key = JStr x \<Longrightarrow> \<not> nullish v"
  by (cases v) (simp_all add: nullish_def)

lemma onmessage_data:
  assumes "get_prop message ''type'' = JStr ''message''"
  shows "onmessage s (Parsed message) =
     (if truthy (opt_prop (get_prop message ''data'') ''tx'') \<and>
         set_has (transactions s) (opt_prop (get_prop message ''data'') ''tx'')
      then (s, [])
      else (if truthy (opt_prop (get_prop message ''data'') ''tx'')
            then s\<lparr>transactions :=
                     insert (opt_prop (get_prop message ''data'') ''tx'') (transactions s)\<rparr>
            else s,
            route_effects message))"
  using assms prop_string_not_nullish [OF assms]
  by (simp add: onmessage_def Let_def)

lemma route_effects_shape:
  "route_effects message = [Emit (JStr ''error'') ErrorArg] \<or>
   (route_effects message \<noteq> [] \<and>
    last (route_effects message) =
      Emit (get_prop message ''room'') (Data (get_prop message ''data'')))"
proof (cases "route message")
  case (Inl e)
  then show ?thesis by (simp add: route_effects_def)
next
  case (Inr out)
  then have "out \<noteq> [] \<and>
      last out = Emit (get_prop message ''room'') (Data (get_prop message ''data''))"
    by (auto simp add: route_def Let_def bindE_def split: if_splits sum.splits)
  with Inr show ?thesis by (simp add: route_effects_def)
qed

lemma route_effects_plain:
  "get_prop message ''room'' = JStr room \<Longrightarrow> \<not> str_includes room ''price:'' \<Longrightarrow>
   route_effects message = [Emit (JStr room) (Data (get_prop message ''data''))]"
  by (simp add: route_effects_def route_def price_room_def bindE_def Let_def)

lemma route_effects_throw:
  "price_room (get_prop message ''room'') = Inl TypeError \<Longrightarrow>
   route_effects message = [Emit (JStr ''error'') ErrorArg]"
  by (simp add: route_effects_def route_def bindE_def Let_def)

lemma route_effects_nonempty: "route_effects message \<noteq> []"
  using route_effects_shape [of message] by auto

lemma onmessage_transactions_mono:
  "t \<in> transactions s \<Longrightarrow> t \<in> transactions (fst (onmessage s m))"
  by (cases m) (auto simp add: onmessage_def Let_def)

lemma onmessage_seen:
  "carries_tx t m \<Longrightarrow> truthy t \<Longrightarrow> primitive t \<Longrightarrow> t \<in> transactions s \<Longrightarrow>
   onmessage s m = (s, [])"
  by (cases m) (auto simp add: carries_tx_def onmessage_data set_has_def)

lemma onmessage_new:
  "carries_tx t m \<Longrightarrow> truthy t \<Longrightarrow> snd (onmessage s m) \<noteq> [] \<Longrightarrow>
   t \<in> transactions (fst (onmessage s m))"
  by (cases m) (auto simp add: carries_tx_def onmessage_data split: if_splits)

lemma seen_never_delivered:
  "truthy t \<Longrightarrow> primitive t \<Longrightarrow> t \<in> transactions s \<Longrightarrow>
   filter (\<lambda>(m, out). carries_tx t m \<and> out \<noteq> []) (zip ms (onmessages s ms)) = []"
proof (induction ms arbitrary: s)
  case Nil
  then show ?case by simp
next
  case (Cons m ms)
  from Cons.prems have "t \<in> transactions (fst (onmessage s m))"
    by (simp add: onmessage_transactions_mono)
  from Cons.IH [OF Cons.prems(1,2) this] Cons.prems show ?case
    by (auto simp add: onmessage_seen)
qed

lemma delivered_at_most_once:
  "truthy t \<Longrightarrow> primitive t \<Longrightarrow>
   length (filter (\<lambda>(m, out). carries_tx t m \<and> out \<noteq> []) (zip ms (onmessages s ms))) \<le> 1"
proof (induction ms arbitrary: s)
  case Nil
  then show ?case by simp
next
  case (Cons m ms)
  show ?case
  proof (cases "carries_tx t m \<and> snd (onmessage s m) \<noteq> []")
    case True
    with Cons.prems have "t \<in> transactions (fst (onmessage s m))"
      by (simp add: onmessage_new)
    from seen_never_delivered [OF Cons.prems this, of ms] True show ?thesis by simp
  next
    case False
    with Cons.IH [OF Cons.prems, of "fst (onmessage s m)"] show ?thesis by auto
  qed
qed

text \<open>
  C1. Let \<open>message\<close> be a parsed frame of type \<open>message\<close> and \<open>t\<close> the \<open>tx\<close> of its payload
  (\<open>undefined\<close> when the payload is \<open>null\<close> or missing). When \<open>t\<close> is truthy, primitive and
  in the dedup set, the frame is dropped: no effect, no change of state. When \<open>t\<close> is
  truthy and not found in the set, it is inserted and the frame is routed. When \<open>t\<close> is
  falsy, such as the empty string, nothing is checked or recorded and the frame is routed
  every time. Routing a frame either emits only \<open>error\<close>, or ends with the emission of the
  payload under the frame's room key; it is exactly that one emission when the room key is
  a string without \<open>price:\<close>, and it is only \<open>error\<close> when \<open>message.room.includes\<close> throws,
  the room being neither a string nor an array; the \<open>tx\<close> is then already recorded.
  Hence in any sequence of inbound messages, from any state, at most one message that
  carries a given truthy primitive \<open>tx\<close> has any effect. \<open>disconnect()\<close> empties the set.
\<close>

theorem dedup_filter:
  "get_prop message ''type'' = JStr ''message'' \<and>
   opt_prop (get_prop message ''data'') ''tx'' = t \<longrightarrow>
     (truthy t \<and> primitive t \<and> t \<in> transactions s \<longrightarrow>
        onmessage s (Parsed message) = (s, [])) \<and>
     (truthy t \<and> \<not> (primitive t \<and> t \<in> transactions s) \<longrightarrow>
        onmessage s (Parsed message) =
          (s\<lparr>transactions := insert t (transactions s)\<rparr>, route_effects message)) \<and>
     (\<not> truthy t \<longrightarrow> onmessage s (Parsed message) = (s, route_effects message)) \<and>
     (route_effects message = [Emit (JStr ''error'') ErrorArg] \<or>
      (route_effects message \<noteq> [] \<and>
       last (route_effects message) =
         Emit (get_prop message ''room'') (Data (get_prop message ''data'')))) \<and>
     (get_prop message ''room'' = JStr room \<and> \<not> str_includes room ''price:'' \<longrightarrow>
        route_effects message = [Emit (JStr room) (Data (get_prop message ''data''))]) \<and>
     (price_room (get_prop message ''room'') = Inl TypeError \<longrightarrow>
        route_effects message = [Emit (JStr ''error'') ErrorArg]) \<and>
     (truthy t \<and> primitive t \<longrightarrow>
        length (filter (\<lambda>(m, out). carries_tx t m \<and> out \<noteq> [])
                  (zip ms (onmessages s' ms))) \<le> 1) \<and>
     transactions (fst (disconnect s)) = {}"
proof (intro impI)
  assume a: "get_prop message ''type'' = JStr ''message'' \<and>
   opt_prop (get_prop message ''data'') ''tx'' = t"
  note om = onmessage_data [of message s]
  have 1: "truthy t \<and> primitive t \<and> t \<in> transactions s \<longrightarrow>
        onmessage s (Parsed message) = (s, [])"
    using a om by (simp add: set_has_def)
  have 2: "truthy t \<and> \<not> (primitive t \<and> t \<in> transactions s) \<longrightarrow>
        onmessage s (Parsed message) =
          (s\<lparr>transactions := insert t (transactions s)\<rparr>, route_effects message)"
    using a om by (auto simp add: set_has_def)
  have 3: "\<not> truthy t \<longrightarrow> onmessage s (Parsed message) = (s, route_effects message)"
    using a om by simp
  note 4 = route_effects_shape [of message]
  have 5: "get_prop message ''room'' = JStr room \<and> \<not> str_includes room ''price:'' \<longrightarrow>
        route_effects message = [Emit (JStr room) (Data (get_prop message ''data''))]"
    using route_effects_plain [of message room] by blast
  have 6: "price_room (get_prop message ''room'') = Inl TypeError \<longrightarrow>
        route_effects message = [Emit (JStr ''error'') ErrorArg]"
    using route_effects_throw [of message] by blast
  have 7: "truthy t \<and> primitive t \<longrightarrow>
        length (filter (\<lambda>(m, out). carries_tx t m \<and> out \<noteq> [])
                  (zip ms (onmessages s' ms))) \<le> 1"
    using delivered_at_most_once [of t ms s'] by blast
  have 8: "transactions (fst (disconnect s)) = {}"
    by (simp add: disconnect_def Let_def)
  from 1 2 3 4 5 6 7 8 show
    "(truthy t \<and> primitive t \<and> t \<in> transactions s \<longrightarrow>
        onmessage s (Parsed message) = (s, [])) \<and>
     (truthy t \<and> \<not> (primitive t \<and> t \<in> transactions s) \<longrightarrow>
        onmessage s (Parsed message) =
          (s\<lparr>transactions := insert t (transactions s)\<rparr>, route_effects message)) \<and>
     (\<not> truthy t \<longrightarrow> onmessage s (Parsed message) = (s, route_effects message)) \<and>
     (route_effects message = [Emit (JStr ''error'') ErrorArg] \<or>
      (route_effects message \<noteq> [] \<and>
       last (route_effects message) =
         Emit (get_prop message ''room'') (Data (get_prop message ''data'')))) \<and>
     (get_prop message ''room'' = JStr room \<and> \<not> str_includes room ''price:'' \<longrightarrow>
        route_effects message = [Emit (JStr room) (Data (get_prop message ''data''))]) \<and>
     (price_room (get_prop message ''room'') = Inl TypeError \<longrightarrow>
        route_effects message = [Emit (JStr ''error'') ErrorArg]) \<and>
     (truthy t \<and> primitive t \<longrightarrow>
        length (filter (\<lambda>(m, out). carries_tx t m \<and> out \<noteq> [])
                  (zip ms (onmessages s' ms))) \<le> 1) \<and>
     transactions (fst (disconnect s)) = {}"
    by (intro conjI)
qed

lemma frame_values:
  "get_prop (data_frame room data) ''type'' = JStr ''message''"
  "get_prop (data_frame room data) ''room'' = JStr room"
  "get_prop (data_frame room data) ''data'' = data"
  by (simp_all add: data_frame_def)

theorem dedup_filter_witness:
  "get_prop tx_frame ''type'' = JStr ''message'' \<and>
   opt_prop (get_prop tx_frame ''data'') ''tx'' = JStr ''sig1'' \<and>
   truthy (JStr ''sig1'') \<and> primitive (JStr ''sig1'') \<and>
   JStr ''sig1'' \<notin> transactions connected_state \<and>
   get_prop tx_frame ''room'' = JStr ''transaction:TOKEN_A'' \<and>
   \<not> str_includes ''transaction:TOKEN_A'' ''price:'' \<and>
   onmessage connected_state (Parsed tx_frame) =
     (connected_state\<lparr>transactions := {JStr ''sig1''}\<rparr>,
      [Emit (JStr ''transaction:TOKEN_A'') (Data (get_prop tx_frame ''data''))]) \<and>
   onmessage (connected_state\<lparr>transactions := {JStr ''sig1''}\<rparr>) (Parsed tx_frame) =
     (connected_state\<lparr>transactions := {JStr ''sig1''}\<rparr>, []) \<and>
   get_prop roomless_frame ''type'' = JStr ''message'' \<and>
   opt_prop (get_prop roomless_frame ''data'') ''tx'' = JStr ''sig1'' \<and>
   price_room (get_prop roomless_frame ''room'') = Inl TypeError \<and>
   onmessages connected_state [Parsed roomless_frame, Parsed tx_frame] =
     [ [Emit (JStr ''error'') ErrorArg], []] \<and>
   get_prop empty_tx_frame ''type'' = JStr ''message'' \<and>
   opt_prop (get_prop empty_tx_frame ''data'') ''tx'' = JStr [] \<and>
   \<not> truthy (JStr []) \<and>
   onmessage connected_state (Parsed empty_tx_frame) =
     (connected_state,
      [Emit (JStr ''transaction:TOKEN_A'') (Data (get_prop empty_tx_frame ''data''))])"
proof -
  have tx: "get_prop tx_frame ''type'' = JStr ''message'' \<and>
      opt_prop (get_prop tx_frame ''data'') ''tx'' = JStr ''sig1''"
    by (simp add: tx_frame_def frame_values opt_prop_def nullish_def)
  have room: "get_prop tx_frame ''room'' = JStr ''transaction:TOKEN_A'' \<and>
      \<not> str_includes ''transaction:TOKEN_A'' ''price:''"
    by (simp add: tx_frame_def frame_values)
  have new: "JStr ''sig1'' \<notin> transactions connected_state"
    by (simp add: connected_state_eq)
  have rl: "get_prop roomless_frame ''type'' = JStr ''message'' \<and>
      opt_prop (get_prop roomless_frame ''data'') ''tx'' = JStr ''sig1''"
    by (simp add: roomless_frame_def opt_prop_def nullish_def)
  have rt: "price_room (get_prop roomless_frame ''room'') = Inl TypeError"
    by (simp add: roomless_frame_def price_room_def)
  have em: "get_prop empty_tx_frame ''type'' = JStr ''message'' \<and>
      opt_prop (get_prop empty_tx_frame ''data'') ''tx'' = JStr []"
    by (simp add: empty_tx_frame_def frame_values opt_prop_def nullish_def)
  have er: "get_prop empty_tx_frame ''room'' = JStr ''transaction:TOKEN_A''"
    by (simp add: empty_tx_frame_def frame_values)
  note d1 = dedup_filter [of tx_frame "JStr ''sig1''" connected_state "''transaction:TOKEN_A''",
      THEN mp, OF tx]
  note d2 = dedup_filter [of tx_frame "JStr ''sig1''"
      "connected_state\<lparr>transactions := {JStr ''sig1''}\<rparr>" "''transaction:TOKEN_A''",
      THEN mp, OF tx]
  note d3 = dedup_filter [of roomless_frame "JStr ''sig1''" connected_state
      "''transaction:TOKEN_A''", THEN mp, OF rl]
  note d4 = dedup_filter [of empty_tx_frame "JStr []" connected_state
      "''transaction:TOKEN_A''", THEN mp, OF em]
  have first: "onmessage connected_state (Parsed tx_frame) =
     (connected_state\<lparr>transactions := {JStr ''sig1''}\<rparr>,
      [Emit (JStr ''transaction:TOKEN_A'') (Data (get_prop tx_frame ''data''))])"
    using d1 room new by (simp add: connected_state_eq)
  have second: "onmessage (connected_state\<lparr>transactions := {JStr ''sig1''}\<rparr>) (Parsed tx_frame) =
     (connected_state\<lparr>transactions := {JStr ''sig1''}\<rparr>, [])"
    using d2 by simp
  have third: "onmessage connected_state (Parsed roomless_frame) =
     (connected_state\<lparr>transactions := {JStr ''sig1''}\<rparr>, [Emit (JStr ''error'') ErrorArg])"
    using d3 rl rt new by (simp add: connected_state_eq)
  have fourth: "onmessage connected_state (Parsed empty_tx_frame) =
     (connected_state,
      [Emit (JStr ''transaction:TOKEN_A'') (Data (get_prop empty_tx_frame ''data''))])"
    using d4 em er room by simp
  from tx room new rl rt em first second third fourth show ?thesis by simp
qed

theorem dedup_empty_tx_counterexample:
  "opt_prop (get_prop empty_tx_frame ''data'') ''tx'' = JStr [] \<and>
   onmessages connected_state [Parsed empty_tx_frame, Parsed empty_tx_frame] =
     [ [Emit (JStr ''transaction:TOKEN_A'') (Data (get_prop empty_tx_frame ''data''))],
       [Emit (JStr ''transaction:TOKEN_A'') (Data (get_prop empty_tx_frame ''data''))]]"
  by (simp add: empty_tx_frame_def data_frame_def opt_prop_def nullish_def onmessage_def
      route_effects_def route_def price_room_def bindE_def Let_def)

text \<open>
  C9. A data frame on a room whose key is a string that contains \<open>price:\<close>, with a payload
  whose \<open>token\<close> is the string \<open>tok\<close>, is emitted under the derived key \<open>price-by-token:tok\<close>
  and then under its own room key, provided the dedup filter lets it pass. A frame the
  filter stops, because its payload has a \<open>tx\<close> already seen, is emitted under neither key.
\<close>

theorem price_derived_routing:
  "get_prop message ''type'' = JStr ''message'' \<and>
   get_prop message ''room'' = JStr room \<and> str_includes room ''price:'' \<and>
   get_prop (get_prop message ''data'') ''token'' = JStr tok \<longrightarrow>
     (\<not> (truthy (opt_prop (get_prop message ''data'') ''tx'') \<and>
          set_has (transactions s) (opt_prop (get_prop message ''data'') ''tx'')) \<longrightarrow>
        snd (onmessage s (Parsed message)) =
          [Emit (JStr (''price-by-token:'' @ tok)) (Data (get_prop message ''data'')),
           Emit (JStr room) (Data (get_prop message ''data''))]) \<and>
     (truthy (opt_prop (get_prop message ''data'') ''tx'') \<and>
      set_has (transactions s) (opt_prop (get_prop message ''data'') ''tx'') \<longrightarrow>
        snd (onmessage s (Parsed message)) = [])"
proof (intro impI)
  assume a: "get_prop message ''type'' = JStr ''message'' \<and>
   get_prop message ''room'' = JStr room \<and> str_includes room ''price:'' \<and>
   get_prop (get_prop message ''data'') ''token'' = JStr tok"
  then have ty: "get_prop message ''type'' = JStr ''message''" by simp
  from a have nn: "\<not> nullish (get_prop message ''data'')"
    by (intro prop_string_not_nullish [of _ "''token''" tok]) simp
  from a nn have r: "route_effects message =
          [Emit (JStr (''price-by-token:'' @ tok)) (Data (get_prop message ''data'')),
           Emit (JStr room) (Data (get_prop message ''data''))]"
    by (simp add: route_effects_def route_def price_room_def bindE_def Let_def)
  show "(\<not> (truthy (opt_prop (get_prop message ''data'') ''tx'') \<and>
          set_has (transactions s) (opt_prop (get_prop message ''data'') ''tx'')) \<longrightarrow>
        snd (onmessage s (Parsed message)) =
          [Emit (JStr (''price-by-token:'' @ tok)) (Data (get_prop message ''data'')),
           Emit (JStr room) (Data (get_prop message ''data''))]) \<and>
     (truthy (opt_prop (get_prop message ''data'') ''tx'') \<and>
      set_has (transactions s) (opt_prop (get_prop message ''data'') ''tx'') \<longrightarrow>
        snd (onmessage s (Parsed message)) = [])"
    unfolding onmessage_data [OF ty] r by simp
qed

theorem price_derived_routing_witness:
  "get_prop price_frame ''type'' = JStr ''message'' \<and>
   get_prop price_frame ''room'' = JStr ''price:TOKEN_A'' \<and>
   str_includes ''price:TOKEN_A'' ''price:'' \<and>
   get_prop (get_prop price_frame ''data'') ''token'' = JStr ''TOKEN_A'' \<and>
   \<not> (truthy (opt_prop (get_prop price_frame ''data'') ''tx'') \<and>
        set_has (transactions connected_state) (opt_prop (get_prop price_frame ''data'') ''tx'')) \<and>
   snd (onmessage connected_state (Parsed price_frame)) =
     [Emit (JStr ''price-by-token:TOKEN_A'') (Data (get_prop price_frame ''data'')),
      Emit (JStr ''price:TOKEN_A'') (Data (get_prop price_frame ''data''))]"
proof -
  have 1: "get_prop price_frame ''type'' = JStr ''message'' \<and>
      get_prop price_frame ''room'' = JStr ''price:TOKEN_A'' \<and>
      str_includes ''price:TOKEN_A'' ''price:'' \<and>
      get_prop (get_prop price_frame ''data'') ''token'' = JStr ''TOKEN_A''"
    by (simp add: price_frame_def frame_values)
  have 2: "\<not> (truthy (opt_prop (get_prop price_frame ''data'') ''tx'') \<and>
        set_has (transactions connected_state) (opt_prop (get_prop price_frame ''data'') ''tx''))"
    by (simp add: connected_state_eq set_has_def)
  from price_derived_routing [of price_frame "''price:TOKEN_A''" "''TOKEN_A''" connected_state,
      THEN mp, OF 1] 2
  have "snd (onmessage connected_state (Parsed price_frame)) =
     [Emit (JStr (''price-by-token:'' @ ''TOKEN_A'')) (Data (get_prop price_frame ''data'')),
      Emit (JStr ''price:TOKEN_A'') (Data (get_prop price_frame ''data''))]"
    by blast
  with 1 2 show ?thesis by simp
qed

theorem price_duplicate_counterexample:
  "get_prop price_frame ''room'' = JStr ''price:TOKEN_A'' \<and>
   get_prop (get_prop price_frame ''data'') ''token'' = JStr ''TOKEN_A'' \<and>
   onmessages connected_state [Parsed price_frame, Parsed price_frame] =
     [ [Emit (JStr ''price-by-token:TOKEN_A'') (Data (get_prop price_frame ''data'')),
        Emit (JStr ''price:TOKEN_A'') (Data (get_prop price_frame ''data''))],
       []]"
  by (simp add: price_frame_def data_frame_def opt_prop_def nullish_def onmessage_def
      route_effects_def route_def price_room_def bindE_def Let_def set_has_def connected_state_eq)

end
